theory Spec2Isabelle
  imports Complex_Main "HOL-Library.Word"
begin

section \<open>Wavetable oscillator: data model\<close>

text \<open>
  The two programs \<^verbatim>\<open>wavetable1.c\<close> (truncating table lookup) and \<^verbatim>\<open>wavetable2.c\<close>
  (linear interpolation) share their data model.

  Numbers. The C types \<^verbatim>\<open>float\<close> and \<^verbatim>\<open>double\<close> are modelled by \<^typ>\<open>real\<close>: every
  arithmetic operation is exact, \<^verbatim>\<open>sin\<close> and \<^verbatim>\<open>atan\<close> are the mathematical functions, and
  rounding, infinities and NaN are outside the model. \<^verbatim>\<open>unsigned long\<close> is \<^typ>\<open>64 word\<close> and
  \<^verbatim>\<open>unsigned int\<close> is \<^typ>\<open>32 word\<close>, with their wrap-around.

  Memory. An array is the list of its slots; its length is the number of slots the caller
  allocated. A read or write outside the array, a conversion to \<^verbatim>\<open>int\<close> of a value that does
  not fit and a signed overflow are undefined behaviour in C; the model returns an
  \<open>error\<close> for them and stops.
\<close>

datatype error = IndexOutOfBounds | CastOutOfRange | SignedOverflow

record wave =
  frequency :: real
  amplitude :: real
  phase :: real
  wavetable :: "real list"
  n :: real

definition SAMPLE_RATE :: real where
  "SAMPLE_RATE = 44100"

definition TABLE_LENGTH :: nat where
  "TABLE_LENGTH = 1024"

definition BUFFER_SIZE :: nat where
  "BUFFER_SIZE = 256"

definition TWOPI :: real where
  "TWOPI = 6.283185307179586"

definition FREQUENCY :: real where
  "FREQUENCY = 440"

definition MAX_AMP :: real where
  "MAX_AMP = 0.5"

definition oneoversr :: real where
  "oneoversr = 1 / SAMPLE_RATE"

section \<open>filltable\<close>

text \<open>
  \<^verbatim>\<open>for (i = 0; i < length; i++) *(table++) = sin(i * twopioverlength);\<close>

  The loop state is the counter \<open>i\<close>, the array \<open>mem\<close> and the offset \<open>p\<close> of the moving
  pointer \<^verbatim>\<open>table\<close> from the start of the array. The parameter \<^verbatim>\<open>length\<close> is called \<open>len\<close>.
  The step \<open>twopioverlength\<close> is computed by the caller of the loop, once. (For a length
  of 0 the step is a division by zero, which no iteration uses.)
\<close>

lemma unat_succ_less: "i < len \<Longrightarrow> unat (i + 1) = Suc (unat i)"
  for i len :: "'a::len word"
proof -
  assume "i < len"
  then have "unat i < unat len"
    by (simp add: word_less_nat_alt)
  moreover have "unat len < 2 ^ LENGTH('a)"
    by (rule unsigned_less)
  ultimately have "unat i + 1 < 2 ^ LENGTH('a)"
    by linarith
  then show ?thesis
    by (simp add: unat_word_ariths)
qed

function filltable_loop ::
  "real \<Rightarrow> 64 word \<Rightarrow> 64 word \<Rightarrow> real list \<times> nat \<Rightarrow> error + real list \<times> nat" where
  "filltable_loop twopioverlength len i (mem, p) =
     (if i < len then
        (if p < length mem
         then filltable_loop twopioverlength len (i + 1)
                (mem[p := sin (real (unat i) * twopioverlength)], p + 1)
         else Inl IndexOutOfBounds)
      else Inr (mem, p))"
  by pat_completeness auto
termination
proof (relation "measure (\<lambda>(c, len, i, s). unat len - unat i)")
  show "wf (measure (\<lambda>(c, len, i, s). unat len - unat i))"
    by simp
next
  fix twopioverlength :: real and len i :: "64 word" and mem :: "real list" and p :: nat
  assume lt: "i < len"
  then have "unat i < unat len"
    by (simp add: word_less_nat_alt)
  with unat_succ_less [OF lt] show
    "((twopioverlength, len, i + 1,
        mem[p := sin (real (unat i) * twopioverlength)], p + 1),
      (twopioverlength, len, i, mem, p))
      \<in> measure (\<lambda>(c, len, i, s). unat len - unat i)"
    by simp
qed

declare filltable_loop.simps [simp del]

text \<open>The truncating program's builder (\<^verbatim>\<open>wavetable1.c\<close>).\<close>

definition filltable1 :: "real list \<Rightarrow> 64 word \<Rightarrow> error + real list" where
  "filltable1 mem len =
     (let twopioverlength = TWOPI / real (unat len)
      in case filltable_loop twopioverlength len 0 (mem, 0) of
           Inl e \<Rightarrow> Inl e
         | Inr (mem', p) \<Rightarrow> Inr mem')"

text \<open>
  The interpolating program's builder (\<^verbatim>\<open>wavetable2.c\<close>): the step is
  \<^verbatim>\<open>8. * atan(1.) / length\<close>, and after the loop \<^verbatim>\<open>*table = 0.\<close> writes the slot the
  pointer has reached.
\<close>

definition filltable2 :: "real list \<Rightarrow> 64 word \<Rightarrow> error + real list" where
  "filltable2 mem len =
     (let twopioverlength = 8 * arctan 1 / real (unat len)
      in case filltable_loop twopioverlength len 0 (mem, 0) of
           Inl e \<Rightarrow> Inl e
         | Inr (mem', p) \<Rightarrow>
             if p < length mem' then Inr (mem'[p := 0]) else Inl IndexOutOfBounds)"

section \<open>sineCallback\<close>

text \<open>
  \<^verbatim>\<open>(int)x\<close> truncates towards zero; the conversion is undefined when the truncated value
  is not an \<^verbatim>\<open>int\<close> (32 bits).
\<close>

definition int_cast :: "real \<Rightarrow> error + int" where
  "int_cast x =
     (let t = (if 0 \<le> x then \<lfloor>x\<rfloor> else \<lceil>x\<rceil>)
      in if - 2147483648 \<le> t \<and> t \<le> 2147483647 then Inr t else Inl CastOutOfRange)"

text \<open>\<^verbatim>\<open>data->wavetable[k]\<close>: a read of slot \<open>k\<close> of the table the pointer refers to.\<close>

definition table_read :: "real list \<Rightarrow> int \<Rightarrow> error + real" where
  "table_read t k =
     (if 0 \<le> k \<and> k < int (length t) then Inr (t ! nat k) else Inl IndexOutOfBounds)"

text \<open>
  The sample of \<^verbatim>\<open>wavetable1.c\<close>:
  \<^verbatim>\<open>y = data->amplitude * (data->wavetable[(int)data->n]);\<close>
\<close>

definition sample1 :: "wave \<Rightarrow> error + real" where
  "sample1 w =
     (case int_cast (n w) of
        Inl e \<Rightarrow> Inl e
      | Inr k \<Rightarrow>
          (case table_read (wavetable w) k of
             Inl e \<Rightarrow> Inl e
           | Inr v \<Rightarrow> Inr (amplitude w * v)))"

text \<open>
  The sample of \<^verbatim>\<open>wavetable2.c\<close>:
  \<^verbatim>\<open>f = data->n - (int)data->n;\<close>
  \<^verbatim>\<open>y = data->amplitude * ((1. - f) * (data->wavetable[(int)data->n]) +
                            f * (data->wavetable[(int)data->n + 1]));\<close>
  The sum \<^verbatim>\<open>(int)data->n + 1\<close> is an \<^verbatim>\<open>int\<close> addition.
\<close>

definition sample2 :: "wave \<Rightarrow> error + real" where
  "sample2 w =
     (case int_cast (n w) of
        Inl e \<Rightarrow> Inl e
      | Inr k \<Rightarrow>
          (let f = n w - real_of_int k
           in case table_read (wavetable w) k of
                Inl e \<Rightarrow> Inl e
              | Inr a \<Rightarrow>
                  if k = 2147483647 then Inl SignedOverflow
                  else
                    (case table_read (wavetable w) (k + 1) of
                       Inl e \<Rightarrow> Inl e
                     | Inr b \<Rightarrow> Inr (amplitude w * ((1 - f) * a + f * b)))))"

text \<open>
  \<^verbatim>\<open>while (data->n > TABLE_LENGTH) data->n -= TABLE_LENGTH;\<close>

  The loop need not end (it does not for a table length of 0 and a positive phase), so
  its result is optional: \<open>None\<close> is "never returns".

  Over the reals the loop ends for every table length above 0. The program's
  single-precision loop need not: for a phase of about \<open>2 ^ 34\<close> and more,
  \<^verbatim>\<open>n - TABLE_LENGTH\<close> rounds back to \<^verbatim>\<open>n\<close> (a target frequency of \<open>10 ^ 13\<close> gives such a
  phase), and the loop runs forever. The theorems of the claims do not rest on the
  termination of this definition: they evaluate the loop at given phases, or take the return
  of the phase update as a hypothesis.
\<close>

partial_function (option) wrap_loop :: "real \<Rightarrow> real \<Rightarrow> real option" where
  "wrap_loop tlen x = (if x > tlen then wrap_loop tlen (x - tlen) else Some x)"

text \<open>
  \<^verbatim>\<open>data->n += data->frequency * TABLE_LENGTH * oneoversr;\<close> followed by the loop above.
  The macro \<^verbatim>\<open>TABLE_LENGTH\<close> and the constant \<^verbatim>\<open>oneoversr\<close> are the parameters \<open>tlen\<close> and
  \<open>osr\<close>; the programs use \<^const>\<open>TABLE_LENGTH\<close> and \<^const>\<open>oneoversr\<close>.

  The increment is exact here. In the program \<^verbatim>\<open>oneoversr\<close> is the \<^verbatim>\<open>float\<close> nearest to
  \<open>1 / 44100\<close>, which is \<open>6233059 / 2 ^ 38\<close>, and every operation rounds, so the phases of the
  two differ in the last digits: at 440 Hz the exact phase is 1024 after 2205 frames and the
  single-precision phase is not. The callbacks are evaluated below at 44100 Hz, and at
  11025 Hz for a table of length 4 (increment 1), where single precision gives the same
  values as exact arithmetic.
\<close>

definition advance :: "nat \<Rightarrow> real \<Rightarrow> wave \<Rightarrow> wave option" where
  "advance tlen osr w =
     map_option (\<lambda>x. w\<lparr>n := x\<rparr>)
       (wrap_loop (real tlen) (n w + frequency w * real tlen * osr))"

text \<open>
  \<^verbatim>\<open>for (i = 0; i < framesPerBuffer; i++) { y = ...; advance; *out++ = y; *out++ = y; }\<close>

  The two programs differ in the computation of \<open>y\<close> only, which is the parameter \<open>smp\<close>.
  The counter \<open>i\<close> is an \<^verbatim>\<open>unsigned int\<close>, converted to \<^verbatim>\<open>unsigned long\<close> for the comparison
  with \<open>framesPerBuffer\<close>. The output buffer belongs to the caller, who sizes it; \<open>out\<close> is
  the sequence of samples written so far through the moving pointer, left channel and right
  channel in turn. A loop that never exits has the value \<open>None\<close>.
\<close>

partial_function (option) sineCallback_loop ::
  "(wave \<Rightarrow> error + real) \<Rightarrow> nat \<Rightarrow> real \<Rightarrow> 64 word \<Rightarrow> 32 word \<Rightarrow> wave \<Rightarrow> real list
     \<Rightarrow> (error + wave \<times> real list) option" where
  "sineCallback_loop smp tlen osr framesPerBuffer i w out =
     (if ucast i < framesPerBuffer then
        (case smp w of
           Inl e \<Rightarrow> Some (Inl e)
         | Inr y \<Rightarrow>
             (case advance tlen osr w of
                None \<Rightarrow> None
              | Some w' \<Rightarrow>
                  sineCallback_loop smp tlen osr framesPerBuffer (i + 1) w' (out @ [y, y])))
      else Some (Inr (w, out)))"

text \<open>
  The callbacks of the two programs: the state \<^verbatim>\<open>*userData\<close> goes in and comes out, with
  the samples written to \<^verbatim>\<open>outputBuffer\<close>. The returned status is always 0 and is left out.
\<close>

definition sineCallback1 :: "nat \<Rightarrow> real \<Rightarrow> 64 word \<Rightarrow> wave \<Rightarrow> (error + wave \<times> real list) option" where
  "sineCallback1 tlen osr framesPerBuffer w = sineCallback_loop sample1 tlen osr framesPerBuffer 0 w []"

definition sineCallback2 :: "nat \<Rightarrow> real \<Rightarrow> 64 word \<Rightarrow> wave \<Rightarrow> (error + wave \<times> real list) option" where
  "sineCallback2 tlen osr framesPerBuffer w = sineCallback_loop sample2 tlen osr framesPerBuffer 0 w []"

section \<open>The frame loop with its two steps as parameters\<close>

text \<open>
  The same loop, \<^verbatim>\<open>for (i = 0; i < framesPerBuffer; i++) { y = ...; n += ...; while ...;
  *out++ = y; *out++ = y; }\<close>, with both of its steps as parameters: \<open>smp\<close> computes the
  sample \<open>y\<close> from the state and \<open>adv\<close> is the phase update, which may not return. Nothing
  is fixed about either: \<open>smp\<close> may be the sample of one of the programs with whatever value
  a read outside the table delivers, and \<open>adv\<close> may be the update in exact or in
  single-precision arithmetic. What is kept is what the loop does with them: the 32-bit
  counter and the two writes per frame.
\<close>

partial_function (option) frame_loop ::
  "(wave \<Rightarrow> real) \<Rightarrow> (wave \<Rightarrow> wave option) \<Rightarrow> 64 word \<Rightarrow> 32 word \<Rightarrow> wave \<Rightarrow> real list
     \<Rightarrow> (wave \<times> real list) option" where
  "frame_loop smp adv framesPerBuffer i w out =
     (if ucast i < framesPerBuffer then
        (case adv w of
           None \<Rightarrow> None
         | Some w' \<Rightarrow> frame_loop smp adv framesPerBuffer (i + 1) w' (out @ [smp w, smp w]))
      else Some (w, out))"

text \<open>
  The sample of a program as a value: \<open>smp\<close> where it is defined, and \<open>g w\<close> where the
  computation is undefined (a read outside the table, whose value is not the program's to
  choose).
\<close>

definition sample_or :: "(wave \<Rightarrow> real) \<Rightarrow> (wave \<Rightarrow> error + real) \<Rightarrow> wave \<Rightarrow> real" where
  "sample_or g smp w = (case smp w of Inl e \<Rightarrow> g w | Inr y \<Rightarrow> y)"

section \<open>The data passed to the callback by main\<close>

text \<open>
  The initialisation of the callback's data in \<^verbatim>\<open>main\<close>, for a target frequency and a table
  (the second program passes \<^const>\<open>FREQUENCY\<close>):
  \<^verbatim>\<open>wave1.n = 0. + wave1.phase * TABLE_LENGTH;\<close>
\<close>

definition init_wave :: "real \<Rightarrow> real list \<Rightarrow> wave" where
  "init_wave target_freq table =
     \<lparr>frequency = target_freq, amplitude = MAX_AMP, phase = 0, wavetable = table,
      n = 0 + 0 * real TABLE_LENGTH\<rparr>"

section \<open>Notions used to state the properties\<close>

text \<open>
  The loop of the callback unrolled \<open>k\<close> times. It is the loop without its counter; below,
  \<open>loop_run_frames\<close> shows that the callback computes it for every frame count the
  32-bit counter can reach.
\<close>

fun run_frames ::
  "(wave \<Rightarrow> error + real) \<Rightarrow> nat \<Rightarrow> real \<Rightarrow> nat \<Rightarrow> wave \<Rightarrow> real list
     \<Rightarrow> (error + wave \<times> real list) option" where
  "run_frames smp tlen osr 0 w out = Some (Inr (w, out))"
| "run_frames smp tlen osr (Suc k) w out =
     (case smp w of
        Inl e \<Rightarrow> Some (Inl e)
      | Inr y \<Rightarrow>
          (case advance tlen osr w of
             None \<Rightarrow> None
           | Some w' \<Rightarrow> run_frames smp tlen osr k w' (out @ [y, y])))"

text \<open>The frame loop unrolled \<open>k\<close> times, in the same way.\<close>

fun frames_unrolled ::
  "(wave \<Rightarrow> real) \<Rightarrow> (wave \<Rightarrow> wave option) \<Rightarrow> nat \<Rightarrow> wave \<Rightarrow> real list
     \<Rightarrow> (wave \<times> real list) option" where
  "frames_unrolled smp adv 0 w out = Some (w, out)"
| "frames_unrolled smp adv (Suc k) w out =
     (case adv w of
        None \<Rightarrow> None
      | Some w' \<Rightarrow> frames_unrolled smp adv k w' (out @ [smp w, smp w]))"

text \<open>Sequencing of two calls: the second starts from the state the first left.\<close>

definition then_call ::
  "(error + wave \<times> real list) option \<Rightarrow> (wave \<Rightarrow> (error + wave \<times> real list) option)
     \<Rightarrow> (error + wave \<times> real list) option" where
  "then_call r g =
     (case r of
        None \<Rightarrow> None
      | Some (Inl e) \<Rightarrow> Some (Inl e)
      | Some (Inr (w1, out1)) \<Rightarrow>
          (case g w1 of
             None \<Rightarrow> None
           | Some (Inl e) \<Rightarrow> Some (Inl e)
           | Some (Inr (w2, out2)) \<Rightarrow> Some (Inr (w2, out1 @ out2))))"

text \<open>
  An interleaved stereo buffer of \<open>k\<close> frames (\<^verbatim>\<open>channelCount = 2\<close>) whose two slots per frame
  hold the same value.
\<close>

definition frames_duplicated :: "nat \<Rightarrow> real list \<Rightarrow> bool" where
  "frames_duplicated k out \<longleftrightarrow>
     length out = 2 * k \<and> (\<forall>j < k. out ! (2 * j) = out ! (2 * j + 1))"

section \<open>The table builder: what it writes\<close>

text \<open>
  Started with counter \<open>i\<close> and pointer offset \<open>p\<close> on an array with room for the
  remaining \<open>len - i\<close> entries, the loop returns, has written exactly the slots
  \<open>p, ..., p + (len - i) - 1\<close> with the sine values and has left every other slot alone.
\<close>

lemma filltable_loop_ok:
  "unat i \<le> unat len \<Longrightarrow> p + (unat len - unat i) \<le> length mem \<Longrightarrow>
   \<exists>mem'. filltable_loop c len i (mem, p) = Inr (mem', p + (unat len - unat i))
     \<and> length mem' = length mem
     \<and> (\<forall>q < length mem. mem' ! q =
          (if p \<le> q \<and> q < p + (unat len - unat i)
           then sin (real (unat i + (q - p)) * c) else mem ! q))"
proof (induction c len i "(mem, p)" arbitrary: mem p rule: filltable_loop.induct)
  case (1 c len i mem p)
  show ?case
  proof (cases "i < len")
    case False
    then have "unat len - unat i = 0"
      by (simp add: word_less_nat_alt)
    with False show ?thesis
      by (simp add: filltable_loop.simps [of c len i mem p])
  next
    case True
    then have lt: "unat i < unat len"
      by (simp add: word_less_nat_alt)
    have suc: "unat (i + 1) = Suc (unat i)"
      by (rule unat_succ_less [OF True])
    from lt "1.prems" have pl: "p < length mem"
      by linarith
    let ?mem = "mem[p := sin (real (unat i) * c)]"
    have "unat (i + 1) \<le> unat len" "(p + 1) + (unat len - unat (i + 1)) \<le> length ?mem"
      using lt suc "1.prems" by simp_all
    from "1.hyps" [OF True pl this] obtain mem' where
      r: "filltable_loop c len (i + 1) (?mem, p + 1) = Inr (mem', p + 1 + (unat len - unat (i + 1)))"
      and l: "length mem' = length ?mem"
      and v: "\<forall>q < length ?mem. mem' ! q =
          (if p + 1 \<le> q \<and> q < p + 1 + (unat len - unat (i + 1))
           then sin (real (unat (i + 1) + (q - (p + 1))) * c) else ?mem ! q)"
      by blast
    have e: "p + 1 + (unat len - unat (i + 1)) = p + (unat len - unat i)"
      using lt suc by simp
    have "filltable_loop c len i (mem, p) = Inr (mem', p + (unat len - unat i))"
      using True pl r e by (simp add: filltable_loop.simps [of c len i mem p])
    moreover have "length mem' = length mem"
      using l by simp
    moreover have "\<forall>q < length mem. mem' ! q =
          (if p \<le> q \<and> q < p + (unat len - unat i)
           then sin (real (unat i + (q - p)) * c) else mem ! q)"
    proof (intro allI impI)
      fix q assume q: "q < length mem"
      show "mem' ! q = (if p \<le> q \<and> q < p + (unat len - unat i)
           then sin (real (unat i + (q - p)) * c) else mem ! q)"
      proof (cases "q = p")
        case True
        have a: "p < p + (unat len - unat i)"
          using lt by linarith
        have "mem' ! p = ?mem ! p"
          using v pl by simp
        then have m: "mem' ! q = sin (real (unat i + (q - p)) * c)"
          using pl True by simp
        have cond: "p \<le> q \<and> q < p + (unat len - unat i)"
          using a True by blast
        show ?thesis
          by (subst if_P [OF cond]) (rule m)
      next
        case False
        have "p + 1 \<le> q \<longleftrightarrow> p \<le> q" using False by linarith
        moreover have "p \<le> q \<Longrightarrow> unat (i + 1) + (q - (p + 1)) = unat i + (q - p)"
          using False suc by simp
        ultimately show ?thesis using v q False e by auto
      qed
    qed
    ultimately show ?thesis by blast
  qed
qed

lemma filltable1_ok:
  assumes "unat len \<le> length mem"
  shows "\<exists>t. filltable1 mem len = Inr t \<and> length t = length mem
     \<and> (\<forall>q < length mem. t ! q =
          (if q < unat len then sin (real q * (TWOPI / real (unat len))) else mem ! q))"
proof -
  from filltable_loop_ok [of 0 len 0 mem "TWOPI / real (unat len)"] assms
  obtain t where
    "filltable_loop (TWOPI / real (unat len)) len 0 (mem, 0) = Inr (t, unat len)"
    "length t = length mem"
    "\<forall>q < length mem. t ! q =
       (if q < unat len then sin (real q * (TWOPI / real (unat len))) else mem ! q)"
    by auto
  then show ?thesis
    by (simp add: filltable1_def)
qed

lemma filltable2_ok:
  assumes "unat len < length mem"
  shows "\<exists>t. filltable2 mem len = Inr t \<and> length t = length mem
     \<and> (\<forall>q < length mem. t ! q =
          (if q < unat len then sin (real q * (8 * arctan 1 / real (unat len)))
           else if q = unat len then 0 else mem ! q))"
proof -
  from filltable_loop_ok [of 0 len 0 mem "8 * arctan 1 / real (unat len)"] assms
  obtain t where t:
    "filltable_loop (8 * arctan 1 / real (unat len)) len 0 (mem, 0) = Inr (t, unat len)"
    "length t = length mem"
    "\<forall>q < length mem. t ! q =
       (if q < unat len then sin (real q * (8 * arctan 1 / real (unat len))) else mem ! q)"
    by auto
  have "filltable2 mem len = Inr (t[unat len := 0])"
    using t(1,2) assms by (simp add: filltable2_def)
  moreover have "\<forall>q < length mem. (t[unat len := 0]) ! q =
          (if q < unat len then sin (real q * (8 * arctan 1 / real (unat len)))
           else if q = unat len then 0 else mem ! q)"
    using t(2,3) assms by (auto simp: nth_list_update)
  ultimately show ?thesis
    using t(2) by simp
qed

subsection \<open>The entries are the sine\<close>

text \<open>
  Bounds on \<open>pi\<close> from Machin's formula and the alternating series of the arc tangent; they
  measure how far the constant \<^const>\<open>TWOPI\<close> is from \<open>2 * pi\<close>.
\<close>

lemma arctan_partial_sums:
  fixes x :: real
  assumes "0 \<le> x" and "x \<le> 1"
  shows "(\<Sum>i<2 * m. (- 1) ^ i * (1 / real (i * 2 + 1) * x ^ (i * 2 + 1))) \<le> arctan x"
    and "arctan x \<le> (\<Sum>i<2 * m + 1. (- 1) ^ i * (1 / real (i * 2 + 1) * x ^ (i * 2 + 1)))"
proof -
  let ?a = "\<lambda>i. 1 / real (i * 2 + 1) * x ^ (i * 2 + 1)"
  have ax: "\<bar>x\<bar> \<le> 1"
    using assms by simp
  have z: "?a \<longlonglongrightarrow> 0"
    by (rule zeroseq_arctan_series [OF ax])
  have p: "0 \<le> ?a i" for i
    using assms(1) by simp
  have d: "?a (Suc i) \<le> ?a i" for i
  proof (rule mult_mono)
    show "1 / real (Suc i * 2 + 1) \<le> 1 / real (i * 2 + 1)"
      by (rule frac_le) simp_all
    show "x ^ (Suc i * 2 + 1) \<le> x ^ (i * 2 + 1)"
      by (rule power_decreasing) (simp_all add: assms)
    show "0 \<le> 1 / real (i * 2 + 1)"
      by simp
    show "0 \<le> x ^ (Suc i * 2 + 1)"
      using assms(1) by simp
  qed
  have s: "arctan x = (\<Sum>i. (- 1) ^ i * ?a i)"
    by (rule arctan_series [OF ax])
  show "(\<Sum>i<2 * m. (- 1) ^ i * ?a i) \<le> arctan x"
    unfolding s by (rule summable_Leibniz'(2) [OF z p d])
  show "arctan x \<le> (\<Sum>i<2 * m + 1. (- 1) ^ i * ?a i)"
    unfolding s by (rule summable_Leibniz'(4) [OF z p d])
qed

lemma pi_bounds: "3.1415926 \<le> pi" "pi \<le> 3.1415927"
proof -
  have e: "pi = 16 * arctan (1 / 5) - 4 * arctan (1 / 239)"
    using machin by simp
  have l5: "(\<Sum>i<2 * 3. (- 1) ^ i * (1 / real (i * 2 + 1) * (1 / 5) ^ (i * 2 + 1))) \<le> arctan (1 / 5)"
    by (rule arctan_partial_sums(1)) simp_all
  have u5: "arctan (1 / 5) \<le> (\<Sum>i<2 * 2 + 1. (- 1) ^ i * (1 / real (i * 2 + 1) * (1 / 5) ^ (i * 2 + 1)))"
    by (rule arctan_partial_sums(2)) simp_all
  have l239: "(\<Sum>i<2 * 1. (- 1) ^ i * (1 / real (i * 2 + 1) * (1 / 239) ^ (i * 2 + 1)))
      \<le> arctan (1 / 239)"
    by (rule arctan_partial_sums(1)) simp_all
  have u239: "arctan (1 / 239)
      \<le> (\<Sum>i<2 * 1 + 1. (- 1) ^ i * (1 / real (i * 2 + 1) * (1 / 239) ^ (i * 2 + 1)))"
    by (rule arctan_partial_sums(2)) simp_all
  show "3.1415926 \<le> pi"
    using l5 u239 unfolding e by (simp add: eval_nat_numeral)
  show "pi \<le> 3.1415927"
    using u5 l239 unfolding e by (simp add: eval_nat_numeral)
qed

lemma TWOPI_close: "\<bar>TWOPI - 2 * pi\<bar> \<le> 1 / 1000000"
proof -
  have "2 * pi \<le> TWOPI + 1 / 1000000"
    using pi_bounds(2) by (simp add: TWOPI_def)
  moreover have "TWOPI \<le> 2 * pi + 1 / 1000000"
    using pi_bounds(1) by (simp add: TWOPI_def)
  ultimately show ?thesis
    by linarith
qed

lemma sin_lipschitz: "\<bar>sin x - sin y\<bar> \<le> \<bar>x - y\<bar>" for x y :: real
proof -
  have "\<bar>sin x - sin y\<bar> = 2 * \<bar>sin ((x - y) / 2)\<bar> * \<bar>cos ((x + y) / 2)\<bar>"
    by (simp add: sin_diff_sin abs_mult)
  also have "\<dots> \<le> 2 * \<bar>(x - y) / 2\<bar> * 1"
    by (intro mult_mono abs_sin_x_le_abs_x abs_cos_le_one) simp_all
  finally show ?thesis by simp
qed

lemma sine_entry_close:
  assumes "i < k"
  shows "\<bar>sin (real i * (TWOPI / real k)) - sin (2 * pi * real i / real k)\<bar> \<le> 1 / 1000000"
proof -
  have r: "0 \<le> real i / real k" "real i / real k \<le> 1"
    using assms by simp_all
  have "real i * (TWOPI / real k) - 2 * pi * real i / real k = (real i / real k) * (TWOPI - 2 * pi)"
    by (simp add: algebra_simps diff_divide_distrib)
  then have "\<bar>real i * (TWOPI / real k) - 2 * pi * real i / real k\<bar>
      = (real i / real k) * \<bar>TWOPI - 2 * pi\<bar>"
    using r(1) by (simp add: abs_mult)
  also have "\<dots> \<le> 1 * \<bar>TWOPI - 2 * pi\<bar>"
    using r(2) by (intro mult_right_mono) simp_all
  finally have "\<bar>real i * (TWOPI / real k) - 2 * pi * real i / real k\<bar> \<le> 1 / 1000000"
    using TWOPI_close by simp
  with sin_lipschitz [of "real i * (TWOPI / real k)" "2 * pi * real i / real k"]
  show ?thesis by linarith
qed

text \<open>
  Claim C3. On an array with room for \<open>len\<close> entries (\<open>len + 1\<close> for the interpolating
  program) the builder returns, and every entry \<open>i < len\<close> of the table is
  \<open>sin (2 * pi * i / len)\<close>: exactly for \<open>filltable2\<close>, whose step is \<open>8 * arctan 1 / len\<close>, and
  within one millionth for \<open>filltable1\<close>, whose step is the decimal constant \<^const>\<open>TWOPI\<close> divided
  by \<open>len\<close>. In both definitions the step is bound once, outside the loop. The arithmetic is
  exact; rounding to \<^verbatim>\<open>float\<close> is not part of the model.
\<close>

theorem filltable_sine_entries:
  "(unat len \<le> length mem \<longrightarrow>
      (\<exists>t. filltable1 mem len = Inr t
         \<and> (\<forall>i < unat len. \<bar>t ! i - sin (2 * pi * real i / real (unat len))\<bar> \<le> 1 / 1000000)))
   \<and> (unat len < length mem \<longrightarrow>
      (\<exists>t. filltable2 mem len = Inr t
         \<and> (\<forall>i < unat len. t ! i = sin (2 * pi * real i / real (unat len)))))"
proof (intro conjI impI)
  assume h: "unat len \<le> length mem"
  from filltable1_ok [OF h] obtain t where
    r: "filltable1 mem len = Inr t"
    and v: "\<forall>q < length mem. t ! q =
          (if q < unat len then sin (real q * (TWOPI / real (unat len))) else mem ! q)"
    by blast
  have "\<bar>t ! i - sin (2 * pi * real i / real (unat len))\<bar> \<le> 1 / 1000000" if "i < unat len" for i
  proof -
    have "t ! i = sin (real i * (TWOPI / real (unat len)))"
      using v that h by simp
    with sine_entry_close [OF that] show ?thesis
      by simp
  qed
  with r show "\<exists>t. filltable1 mem len = Inr t
         \<and> (\<forall>i < unat len. \<bar>t ! i - sin (2 * pi * real i / real (unat len))\<bar> \<le> 1 / 1000000)"
    by blast
next
  assume h: "unat len < length mem"
  from filltable2_ok [OF h] obtain t where
    r: "filltable2 mem len = Inr t"
    and v: "\<forall>q < length mem. t ! q =
          (if q < unat len then sin (real q * (8 * arctan 1 / real (unat len)))
           else if q = unat len then 0 else mem ! q)"
    by blast
  have "t ! i = sin (2 * pi * real i / real (unat len))" if "i < unat len" for i
  proof -
    have "t ! i = sin (real i * (8 * arctan 1 / real (unat len)))"
      using v that h by simp
    moreover have e: "8 * arctan 1 = 2 * pi"
      by (simp add: arctan_one)
    have "real i * (8 * arctan 1 / real (unat len)) = 2 * pi * real i / real (unat len)"
      unfolding e by (simp add: algebra_simps)
    ultimately show ?thesis
      by (simp only:)
  qed
  with r show "\<exists>t. filltable2 mem len = Inr t
         \<and> (\<forall>i < unat len. t ! i = sin (2 * pi * real i / real (unat len)))"
    by blast
qed

theorem filltable_sine_entries_witness:
  "unat (2 :: 64 word) \<le> length [9, 9, 9 :: real]
   \<and> (\<exists>t. filltable1 [9, 9, 9] 2 = Inr t
         \<and> (\<forall>i < unat (2 :: 64 word).
               \<bar>t ! i - sin (2 * pi * real i / real (unat (2 :: 64 word)))\<bar> \<le> 1 / 1000000))
   \<and> unat (2 :: 64 word) < length [9, 9, 9 :: real]
   \<and> (\<exists>t. filltable2 [9, 9, 9] 2 = Inr t
         \<and> (\<forall>i < unat (2 :: 64 word). t ! i = sin (2 * pi * real i / real (unat (2 :: 64 word)))))
   \<and> filltable1 [9, 9, 9] 2 = Inr [0, sin (TWOPI / 2), 9]
   \<and> filltable2 [9, 9, 9] 2 = Inr [0, sin (4 * arctan 1), 0]"
proof -
  have a: "unat (2 :: 64 word) \<le> length [9, 9, 9 :: real]"
    and b: "unat (2 :: 64 word) < length [9, 9, 9 :: real]"
    by simp_all
  have c: "filltable1 [9, 9, 9] 2 = Inr [0, sin (TWOPI / 2), 9]"
    by (simp add: filltable1_def filltable_loop.simps)
  have d: "filltable2 [9, 9, 9] 2 = Inr [0, sin (4 * arctan 1), 0]"
    by (simp add: filltable2_def filltable_loop.simps)
  from filltable_sine_entries [of 2 "[9, 9, 9]"] a b c d show ?thesis
    by blast
qed

subsection \<open>The guard slot and the length 0\<close>

text \<open>
  Claim C4. In the interpolating program, after \<open>filltable2\<close> on an array that has the
  \<open>len + 1\<close> slots the program allocates, the call returns a table whose guard slot at
  index \<open>len\<close> equals its first slot (both are 0).
\<close>

theorem filltable2_guard_slot:
  assumes "unat len < length mem"
  shows "\<exists>t. filltable2 mem len = Inr t \<and> t ! unat len = t ! 0"
proof -
  from filltable2_ok [OF assms] obtain t where
    r: "filltable2 mem len = Inr t"
    and v: "\<forall>q < length mem. t ! q =
          (if q < unat len then sin (real q * (8 * arctan 1 / real (unat len)))
           else if q = unat len then 0 else mem ! q)"
    by blast
  have a: "t ! unat len = 0"
    using v assms by simp
  have "0 < length mem"
    using assms by linarith
  then have "t ! 0 = (if 0 < unat len then sin (real 0 * (8 * arctan 1 / real (unat len))) else 0)"
    using v by auto
  then have "t ! 0 = 0"
    by simp
  with a r show ?thesis
    by simp
qed

theorem filltable2_guard_slot_witness:
  "unat (2 :: 64 word) < length [5, 5, 5 :: real]
   \<and> (\<exists>t. filltable2 [5, 5, 5] 2 = Inr t \<and> t ! unat (2 :: 64 word) = t ! 0)"
  using filltable2_guard_slot [of 2 "[5, 5, 5]"] by simp

text \<open>
  Claim C8 says that a zero length is rejected. The builders have no such check: with
  length 0 they return normally. The counterexample runs both on a two-slot array.
\<close>

theorem zero_length_call_returns:
  "filltable1 [3, 4] 0 = Inr [3, 4] \<and> filltable2 [3, 4] 0 = Inr [0, 4]"
  by (simp add: filltable1_def filltable2_def filltable_loop.simps)

text \<open>
  Claim C8, amended. Called with length 0, the builder returns normally and writes no sine
  entry: \<open>filltable1\<close> leaves the array as it was, and \<open>filltable2\<close> writes only the value 0
  into slot 0. (The parameter is unsigned, so there is no negative length.)
\<close>

theorem filltable_zero_length:
  "filltable1 mem 0 = Inr mem \<and> filltable2 (x # mem) 0 = Inr (0 # mem)"
  by (simp add: filltable1_def filltable2_def filltable_loop.simps)

section \<open>The callback loop\<close>

subsection \<open>The counter and the wrap loop\<close>

lemma unat_ucast_32_64: "unat (ucast (i :: 32 word) :: 64 word) = unat i"
proof -
  have "unat i < 2 ^ 32"
    using unsigned_less [of i] by simp
  then have "unat i < (2 :: nat) ^ 64"
    by simp
  then show ?thesis
    by (simp add: unsigned_ucast_eq take_bit_nat_eq_self)
qed

lemma counter_less_iff: "ucast (i :: 32 word) < (fpb :: 64 word) \<longleftrightarrow> unat i < unat fpb"
  by (simp add: word_less_nat_alt unat_ucast_32_64)

lemma wrap_loop_done: "x \<le> t \<Longrightarrow> wrap_loop t x = Some x"
  by (simp add: wrap_loop.simps)

lemma wrap_loop_step: "t < x \<Longrightarrow> wrap_loop t x = wrap_loop t (x - t)"
  by (subst wrap_loop.simps) simp

lemma wrap_loop_bounded:
  "0 < t \<Longrightarrow> x \<le> t + real k * t \<Longrightarrow>
   \<exists>y. wrap_loop t x = Some y \<and> y \<le> t \<and> (t < x \<longrightarrow> 0 < y) \<and> (x \<le> t \<longrightarrow> y = x)"
proof (induction k arbitrary: x)
  case 0
  then show ?case by (simp add: wrap_loop_done)
next
  case (Suc k)
  show ?case
  proof (cases "x \<le> t")
    case True
    then show ?thesis by (simp add: wrap_loop_done)
  next
    case False
    then have lt: "t < x" by simp
    have "x - t \<le> t + real k * t"
      using Suc.prems(2) by (simp add: algebra_simps)
    from Suc.IH [OF Suc.prems(1) this] obtain y where
      y: "wrap_loop t (x - t) = Some y" "y \<le> t" "t < x - t \<longrightarrow> 0 < y" "x - t \<le> t \<longrightarrow> y = x - t"
      by blast
    have "0 < y"
      using y(3,4) lt by (cases "t < x - t") auto
    with y(1,2) lt show ?thesis
      by (simp add: wrap_loop_step)
  qed
qed

lemma wrap_loop_total:
  assumes "0 < t"
  shows "\<exists>y. wrap_loop t x = Some y \<and> y \<le> t \<and> (t < x \<longrightarrow> 0 < y) \<and> (x \<le> t \<longrightarrow> y = x)"
proof -
  from ex_less_of_nat_mult [OF assms, of x] obtain k where "x < real k * t"
    by blast
  then have "x \<le> t + real k * t"
    using assms by simp
  from wrap_loop_bounded [OF assms this] show ?thesis .
qed

lemma advance_total:
  assumes "0 < tlen"
  shows "\<exists>x. advance tlen osr w = Some (w\<lparr>n := x\<rparr>) \<and> x \<le> real tlen"
proof -
  have "0 < real tlen" using assms by simp
  from wrap_loop_total [OF this, of "n w + frequency w * real tlen * osr"]
  show ?thesis by (auto simp: advance_def)
qed

lemma advance_fields:
  "advance tlen osr w = Some w' \<Longrightarrow>
   wavetable w' = wavetable w \<and> amplitude w' = amplitude w \<and> frequency w' = frequency w
     \<and> phase w' = phase w"
  by (auto simp: advance_def)

lemma loop_run_frames:
  "unat fpb < 2 ^ 32 \<Longrightarrow> unat i + k = unat fpb \<Longrightarrow>
   sineCallback_loop smp tlen osr fpb i w out = run_frames smp tlen osr k w out"
proof (induction k arbitrary: i w out)
  case 0
  then have "\<not> ucast i < fpb"
    by (simp add: counter_less_iff)
  then show ?case
    by (subst sineCallback_loop.simps) simp
next
  case (Suc k)
  have lt: "ucast i < fpb"
    using Suc.prems(2) by (simp add: counter_less_iff)
  have "unat i + 1 < 2 ^ LENGTH(32)"
    using Suc.prems by simp
  then have "unat (i + 1) = unat i + 1"
    by (simp add: unat_word_ariths)
  then have "unat (i + 1) + k = unat fpb"
    using Suc.prems(2) by simp
  note IH = Suc.IH [OF Suc.prems(1) this]
  show ?case
    by (subst sineCallback_loop.simps) (simp add: lt IH split: sum.splits option.splits)
qed

lemma sineCallback1_run_frames:
  "unat fpb < 2 ^ 32 \<Longrightarrow> sineCallback1 tlen osr fpb w = run_frames sample1 tlen osr (unat fpb) w []"
  by (simp add: sineCallback1_def loop_run_frames)

lemma sineCallback2_run_frames:
  "unat fpb < 2 ^ 32 \<Longrightarrow> sineCallback2 tlen osr fpb w = run_frames sample2 tlen osr (unat fpb) w []"
  by (simp add: sineCallback2_def loop_run_frames)

lemma run_frames_acc:
  "run_frames smp tlen osr k w (pre @ out) =
   map_option (map_sum id (\<lambda>(w', s). (w', pre @ s))) (run_frames smp tlen osr k w out)"
  by (induction k arbitrary: w out) (auto split: sum.splits option.splits)

lemma run_frames_add:
  "run_frames smp tlen osr (k1 + k2) w out =
   then_call (run_frames smp tlen osr k1 w out) (\<lambda>w1. run_frames smp tlen osr k2 w1 [])"
proof (induction k1 arbitrary: w out)
  case 0
  have "run_frames smp tlen osr k2 w (out @ []) =
    map_option (map_sum id (\<lambda>(w', s). (w', out @ s))) (run_frames smp tlen osr k2 w [])"
    by (rule run_frames_acc)
  then show ?case
    by (auto simp: then_call_def split: option.splits sum.splits)
next
  case (Suc k1)
  then show ?case
    by (auto simp: then_call_def split: option.splits sum.splits)
qed

subsection \<open>Table reads below and at the table length\<close>

text \<open>
  For a phase in \<open>[0, tlen)\<close> the reads of both programs are inside the table they allocate
  (\<open>tlen\<close> slots, and \<open>tlen + 1\<close> with the guard slot). At a phase equal to \<open>tlen\<close> they are not:
  the truncating sample reads slot \<open>tlen\<close> of \<open>tlen\<close>, the interpolating one slot \<open>tlen + 1\<close>
  of \<open>tlen + 1\<close>.
\<close>

lemma int_cast_in_range:
  assumes "0 \<le> x" and "x < real m" and "m \<le> 2147483648"
  shows "int_cast x = Inr \<lfloor>x\<rfloor> \<and> 0 \<le> \<lfloor>x\<rfloor> \<and> \<lfloor>x\<rfloor> < int m"
proof -
  have a: "0 \<le> \<lfloor>x\<rfloor>"
    using assms(1) by simp
  have b: "\<lfloor>x\<rfloor> < int m"
    using assms(2) by (simp add: floor_less_iff)
  then have "\<lfloor>x\<rfloor> \<le> 2147483647"
    using assms(3) by linarith
  with a b assms(1) show ?thesis
    by (simp add: int_cast_def)
qed

lemma sample1_in_range:
  assumes "0 \<le> n w" and "n w < real tlen" and "length (wavetable w) = tlen"
    and "tlen \<le> 2147483648"
  shows "sample1 w = Inr (amplitude w * wavetable w ! nat \<lfloor>n w\<rfloor>)"
proof -
  from int_cast_in_range [OF assms(1,2,4)]
  have "int_cast (n w) = Inr \<lfloor>n w\<rfloor>" "0 \<le> \<lfloor>n w\<rfloor>" "\<lfloor>n w\<rfloor> < int tlen"
    by simp_all
  then show ?thesis
    using assms(3) by (simp add: sample1_def table_read_def)
qed

lemma sample2_in_range:
  assumes "0 \<le> n w" and "n w < real tlen" and "length (wavetable w) = tlen + 1"
    and "tlen \<le> 2147483647"
  shows "sample2 w =
    Inr (amplitude w * ((1 - (n w - real_of_int \<lfloor>n w\<rfloor>)) * wavetable w ! nat \<lfloor>n w\<rfloor>
           + (n w - real_of_int \<lfloor>n w\<rfloor>) * wavetable w ! (nat \<lfloor>n w\<rfloor> + 1)))"
proof -
  have "tlen \<le> 2147483648"
    using assms(4) by simp
  from int_cast_in_range [OF assms(1,2) this]
  have k: "int_cast (n w) = Inr \<lfloor>n w\<rfloor>" "0 \<le> \<lfloor>n w\<rfloor>" "\<lfloor>n w\<rfloor> < int tlen"
    by simp_all
  then have "\<lfloor>n w\<rfloor> \<noteq> 2147483647"
    using assms(4) by linarith
  moreover have "nat (\<lfloor>n w\<rfloor> + 1) = nat \<lfloor>n w\<rfloor> + 1"
    using nat_add_distrib [OF k(2), of 1] by simp
  ultimately show ?thesis
    using k assms(3) by (simp add: sample2_def table_read_def Let_def)
qed

lemma sample1_at_table_length:
  assumes "n w = real tlen" and "length (wavetable w) = tlen"
  shows "sample1 w = Inl IndexOutOfBounds \<or> sample1 w = Inl CastOutOfRange"
  using assms by (simp add: sample1_def int_cast_def table_read_def)

lemma sample2_at_table_length:
  assumes "n w = real tlen" and "length (wavetable w) = tlen + 1"
  shows "\<exists>e. sample2 w = Inl e"
  using assms by (simp add: sample2_def int_cast_def table_read_def)

text \<open>
  With the program's constants and a target frequency of 44100 the second frame of the
  truncating program is read outside any table of 1024 slots.
\<close>

lemma second_frame_reads_outside:
  assumes "length t = 1024"
  shows "sineCallback1 TABLE_LENGTH oneoversr 2 (init_wave 44100 t) = Some (Inl IndexOutOfBounds)"
  using assms
  by (simp add: sineCallback1_def sineCallback_loop.simps init_wave_def sample1_def int_cast_def
      table_read_def advance_def wrap_loop.simps TABLE_LENGTH_def oneoversr_def SAMPLE_RATE_def)

text \<open>
  An increment of exactly 1, from phase 0, on a table of \<open>tlen\<close> slots: the truncating
  program reads the slots \<open>0, ..., tlen - 1\<close> in turn and arrives at the phase \<open>tlen\<close>; frame
  \<open>tlen + 1\<close> reads slot \<open>tlen\<close>. With the program's constants this is the target frequency
  \<open>44100 / 1024 = 43.06640625\<close>.
\<close>

lemma unit_increment_frames:
  assumes "frequency w * real tlen * osr = 1" and "length (wavetable w) = tlen"
    and "tlen \<le> 2147483648" and "j + k \<le> tlen" and "n w = real j"
  shows "run_frames sample1 tlen osr k w out =
    Some (Inr (w\<lparr>n := real (j + k)\<rparr>,
      out @ concat (map (\<lambda>i. [amplitude w * wavetable w ! i, amplitude w * wavetable w ! i])
                     [j..<j + k])))"
  using assms
proof (induction k arbitrary: j w out)
  case 0
  then show ?case by simp
next
  case (Suc k)
  have jl: "j < tlen"
    using Suc.prems(4) by simp
  have "0 \<le> n w" "n w < real tlen"
    using Suc.prems(5) jl by simp_all
  from sample1_in_range [OF this Suc.prems(2,3)]
  have s: "sample1 w = Inr (amplitude w * wavetable w ! j)"
    using Suc.prems(5) by simp
  let ?w1 = "w\<lparr>n := real (j + 1)\<rparr>"
  have "n w + frequency w * real tlen * osr = real (j + 1)"
    using Suc.prems(1,5) by simp
  moreover have "real (j + 1) \<le> real tlen"
    using jl by simp
  ultimately have a: "advance tlen osr w = Some ?w1"
    by (simp add: advance_def wrap_loop_done del: of_nat_add)
  have "run_frames sample1 tlen osr k ?w1 (out @ [amplitude w * wavetable w ! j,
        amplitude w * wavetable w ! j]) =
    Some (Inr (?w1\<lparr>n := real (j + 1 + k)\<rparr>,
      (out @ [amplitude w * wavetable w ! j, amplitude w * wavetable w ! j])
      @ concat (map (\<lambda>i. [amplitude ?w1 * wavetable ?w1 ! i, amplitude ?w1 * wavetable ?w1 ! i])
                     [j + 1..<j + 1 + k])))"
    by (rule Suc.IH) (use Suc.prems in simp_all)
  moreover have "[j..<j + Suc k] = j # [j + 1..<j + 1 + k]"
    by (simp add: upt_conv_Cons)
  ultimately show ?case
    using s a by simp
qed

lemma unit_increment_overrun:
  assumes inc: "frequency w * real tlen * osr = 1" and len: "length (wavetable w) = tlen"
    and small: "tlen \<le> 2147483647" and start: "n w = 0"
  shows "run_frames sample1 tlen osr (tlen + 1) w [] = Some (Inl IndexOutOfBounds)"
proof -
  have "tlen \<le> 2147483648"
    using small by simp
  from unit_increment_frames [OF inc len this, of 0 tlen "[]"] start
  obtain out where r: "run_frames sample1 tlen osr tlen w [] = Some (Inr (w\<lparr>n := real tlen\<rparr>, out))"
    by simp
  have "sample1 (w\<lparr>n := real tlen\<rparr>) = Inl IndexOutOfBounds"
    using len small by (simp add: sample1_def int_cast_def table_read_def)
  then have o: "run_frames sample1 tlen osr 1 (w\<lparr>n := real tlen\<rparr>) [] = Some (Inl IndexOutOfBounds)"
    by simp
  have "run_frames sample1 tlen osr (tlen + 1) w [] =
    then_call (run_frames sample1 tlen osr tlen w [])
      (\<lambda>w1. run_frames sample1 tlen osr 1 w1 [])"
    by (rule run_frames_add)
  also have "\<dots> = Some (Inl IndexOutOfBounds)"
    unfolding r then_call_def using o by simp
  finally show ?thesis .
qed

lemma frame_1025_reads_outside:
  assumes "length t = 1024"
  shows "sineCallback1 TABLE_LENGTH oneoversr 1025 (init_wave (44100 / 1024) t) =
    Some (Inl IndexOutOfBounds)"
proof -
  have "unat (1025 :: 64 word) < 2 ^ 32"
    by simp
  from sineCallback1_run_frames [OF this]
  have "sineCallback1 TABLE_LENGTH oneoversr 1025 (init_wave (44100 / 1024) t) =
    run_frames sample1 TABLE_LENGTH oneoversr (TABLE_LENGTH + 1) (init_wave (44100 / 1024) t) []"
    by (simp add: TABLE_LENGTH_def)
  also have "\<dots> = Some (Inl IndexOutOfBounds)"
    by (rule unit_increment_overrun)
      (simp_all add: init_wave_def TABLE_LENGTH_def oneoversr_def SAMPLE_RATE_def assms)
  finally show ?thesis .
qed

subsection \<open>Phase bound, traversal and table reads\<close>

text \<open>
  Claim C1 says that after the wrap step the phase \<open>n\<close> is below the table length. The
  loop subtracts only while \<open>n > TABLE_LENGTH\<close>, so a phase equal to the table length
  stays. With the program's constants and a target frequency of 44100 the increment is
  exactly 1024: one frame takes the phase from 0 to 1024, the table length, which is the
  state the next frame and the next callback start from.
\<close>

theorem phase_reaches_table_length:
  "sineCallback1 TABLE_LENGTH oneoversr 1 (init_wave 44100 (x # table)) =
     Some (Inr ((init_wave 44100 (x # table))\<lparr>n := 1024\<rparr>, [MAX_AMP * x, MAX_AMP * x]))"
  by (simp add: sineCallback1_def sineCallback_loop.simps init_wave_def sample1_def int_cast_def
      table_read_def advance_def wrap_loop.simps TABLE_LENGTH_def oneoversr_def SAMPLE_RATE_def)

text \<open>
  Claim C2 is the scenario of a table of length 4 with contents 0, 1, 0, -1, phase 0,
  amplitude 1 and increment 1 (frequency 11025 at 44100 samples per second). The first
  four samples are 0, 1, 0, -1 and leave the phase at 4, which the wrap loop keeps. The fifth
  sample is then read from slot 4, outside the four-slot table, where the claim has the
  value of slot 0.
\<close>

theorem length4_traversal_leaves_table:
  "sineCallback1 4 oneoversr 4
     \<lparr>frequency = 11025, amplitude = 1, phase = 0, wavetable = [0, 1, 0, -1], n = 0\<rparr> =
   Some (Inr (\<lparr>frequency = 11025, amplitude = 1, phase = 0, wavetable = [0, 1, 0, -1], n = 4\<rparr>,
              [0, 0, 1, 1, 0, 0, -1, -1]))
   \<and> sineCallback1 4 oneoversr 5
     \<lparr>frequency = 11025, amplitude = 1, phase = 0, wavetable = [0, 1, 0, -1], n = 0\<rparr> =
   Some (Inl IndexOutOfBounds)"
  by (simp add: sineCallback1_def sineCallback_loop.simps sample1_def int_cast_def
      table_read_def advance_def wrap_loop.simps oneoversr_def SAMPLE_RATE_def)

text \<open>
  Claim C10 says that for \<open>0 \<le> n \<le> tableLength\<close> both reads of the interpolating sample
  are within the \<open>tableLength + 1\<close> slots. At \<open>n = tableLength\<close> the second read is of slot
  \<open>tableLength + 1\<close>. In the scenario of length 4 (five slots, the last one the guard) the
  phase reaches 4 after four frames of increment 1, and the fifth frame reads slot 5.
\<close>

theorem guard_slot_overrun:
  "sample2 \<lparr>frequency = 11025, amplitude = 1, phase = 0, wavetable = [0, 1, 0, -1, 0], n = 4\<rparr> =
     Inl IndexOutOfBounds
   \<and> sineCallback2 4 oneoversr 4
     \<lparr>frequency = 11025, amplitude = 1, phase = 0, wavetable = [0, 1, 0, -1, 0], n = 0\<rparr> =
   Some (Inr (\<lparr>frequency = 11025, amplitude = 1, phase = 0, wavetable = [0, 1, 0, -1, 0], n = 4\<rparr>,
              [0, 0, 1, 1, 0, 0, -1, -1]))
   \<and> sineCallback2 4 oneoversr 5
     \<lparr>frequency = 11025, amplitude = 1, phase = 0, wavetable = [0, 1, 0, -1, 0], n = 0\<rparr> =
   Some (Inl IndexOutOfBounds)"
  by (simp add: sineCallback2_def sineCallback_loop.simps sample2_def int_cast_def
      table_read_def advance_def wrap_loop.simps oneoversr_def SAMPLE_RATE_def)

subsection \<open>Consecutive calls and the interleaved buffer\<close>

text \<open>
  Claim C5. For both programs, a call with \<open>n1 + n2\<close> frames gives the same result as a call
  with \<open>n1\<close> frames followed by a call with \<open>n2\<close> frames on the state the first call left:
  the same final state, and as samples the samples of the first call followed by those of the
  second (and the same error or non-termination, if there is one). The frame counts are
  those the 32-bit loop counter can count: \<open>n1 + n2 < 2 ^ 32\<close>.
\<close>

theorem consecutive_calls:
  assumes "unat n1 + unat n2 < 2 ^ 32"
  shows "sineCallback1 tlen osr (n1 + n2) w =
           then_call (sineCallback1 tlen osr n1 w) (sineCallback1 tlen osr n2)
       \<and> sineCallback2 tlen osr (n1 + n2) w =
           then_call (sineCallback2 tlen osr n1 w) (sineCallback2 tlen osr n2)"
proof -
  have "unat n1 + unat n2 < 2 ^ LENGTH(64)"
    using assms by simp
  then have s: "unat (n1 + n2) = unat n1 + unat n2"
    by (simp add: unat_word_ariths)
  have b: "unat n1 < 2 ^ 32" "unat n2 < 2 ^ 32" "unat (n1 + n2) < 2 ^ 32"
    using assms s by simp_all
  have f1: "sineCallback1 tlen osr n2 = (\<lambda>w1. run_frames sample1 tlen osr (unat n2) w1 [])"
    by (rule ext) (rule sineCallback1_run_frames [OF b(2)])
  have f2: "sineCallback2 tlen osr n2 = (\<lambda>w1. run_frames sample2 tlen osr (unat n2) w1 [])"
    by (rule ext) (rule sineCallback2_run_frames [OF b(2)])
  have "sineCallback1 tlen osr (n1 + n2) w =
           then_call (sineCallback1 tlen osr n1 w) (sineCallback1 tlen osr n2)"
    by (simp only: sineCallback1_run_frames [OF b(1)] f1
        sineCallback1_run_frames [OF b(3)] s run_frames_add)
  moreover have "sineCallback2 tlen osr (n1 + n2) w =
           then_call (sineCallback2 tlen osr n1 w) (sineCallback2 tlen osr n2)"
    by (simp only: sineCallback2_run_frames [OF b(1)] f2
        sineCallback2_run_frames [OF b(3)] s run_frames_add)
  ultimately show ?thesis ..
qed

theorem consecutive_calls_witness:
  "unat (1 :: 64 word) + unat (2 :: 64 word) < 2 ^ 32
   \<and> sineCallback1 4 oneoversr (1 + 2)
        \<lparr>frequency = 11025, amplitude = 1, phase = 0, wavetable = [0, 1, 0, -1, 0], n = 0\<rparr> =
      then_call
        (sineCallback1 4 oneoversr 1
           \<lparr>frequency = 11025, amplitude = 1, phase = 0, wavetable = [0, 1, 0, -1, 0], n = 0\<rparr>)
        (sineCallback1 4 oneoversr 2)
   \<and> sineCallback2 4 oneoversr (1 + 2)
        \<lparr>frequency = 11025, amplitude = 1, phase = 0, wavetable = [0, 1, 0, -1, 0], n = 0\<rparr> =
      then_call
        (sineCallback2 4 oneoversr 1
           \<lparr>frequency = 11025, amplitude = 1, phase = 0, wavetable = [0, 1, 0, -1, 0], n = 0\<rparr>)
        (sineCallback2 4 oneoversr 2)"
proof -
  have h: "unat (1 :: 64 word) + unat (2 :: 64 word) < 2 ^ 32"
    by simp
  from consecutive_calls [OF h] h show ?thesis
    by blast
qed

lemma pairs_nth:
  "j < length ys \<Longrightarrow>
   concat (map (\<lambda>y. [y, y]) ys) ! (2 * j) = ys ! j
   \<and> concat (map (\<lambda>y. [y, y]) ys) ! (2 * j + 1) = ys ! j"
proof (induction ys arbitrary: j)
  case Nil
  then show ?case by simp
next
  case (Cons y ys)
  show ?case
  proof (cases j)
    case 0
    then show ?thesis by simp
  next
    case (Suc m)
    with Cons.prems have "m < length ys" by simp
    from Cons.IH [OF this] Suc show ?thesis by simp
  qed
qed

lemma pairs_duplicated: "frames_duplicated (length ys) (concat (map (\<lambda>y. [y, y]) ys))"
proof -
  have "length (concat (map (\<lambda>y. [y, y]) ys)) = 2 * length ys"
    by (induction ys) simp_all
  then show ?thesis
    using pairs_nth [of _ ys] by (simp add: frames_duplicated_def)
qed

lemma frame_loop_unrolled:
  "unat fpb < 2 ^ 32 \<Longrightarrow> unat i + k = unat fpb \<Longrightarrow>
   frame_loop smp adv fpb i w out = frames_unrolled smp adv k w out"
proof (induction k arbitrary: i w out)
  case 0
  then have "\<not> ucast i < fpb"
    by (simp add: counter_less_iff)
  then show ?case
    by (subst frame_loop.simps) simp
next
  case (Suc k)
  have lt: "ucast i < fpb"
    using Suc.prems(2) by (simp add: counter_less_iff)
  have "unat i + 1 < 2 ^ LENGTH(32)"
    using Suc.prems by simp
  then have "unat (i + 1) = unat i + 1"
    by (simp add: unat_word_ariths)
  then have "unat (i + 1) + k = unat fpb"
    using Suc.prems(2) by simp
  note IH = Suc.IH [OF Suc.prems(1) this]
  show ?case
    by (subst frame_loop.simps) (simp add: lt IH split: option.splits)
qed

lemma frames_unrolled_written:
  "frames_unrolled smp adv k w out = Some (w', out') \<Longrightarrow>
   \<exists>ys. length ys = k \<and> out' = out @ concat (map (\<lambda>y. [y, y]) ys)"
proof (induction k arbitrary: w out)
  case 0
  then show ?case by simp
next
  case (Suc k)
  from Suc.prems obtain w1 where
    r: "frames_unrolled smp adv k w1 (out @ [smp w, smp w]) = Some (w', out')"
    by (auto split: option.splits)
  from Suc.IH [OF r] obtain ys where
    ys: "length ys = k" "out' = (out @ [smp w, smp w]) @ concat (map (\<lambda>y. [y, y]) ys)"
    by blast
  then have "length (smp w # ys) = Suc k
      \<and> out' = out @ concat (map (\<lambda>y. [y, y]) (smp w # ys))"
    by simp
  then show ?case
    by blast
qed

lemma frames_unrolled_returns:
  assumes step: "\<forall>u. ok u \<longrightarrow> (\<exists>u'. adv u = Some u' \<and> ok u')"
  shows "ok w \<Longrightarrow> \<exists>w' out'. frames_unrolled smp adv k w out = Some (w', out') \<and> ok w'"
proof (induction k arbitrary: w out)
  case 0
  then show ?case by simp
next
  case (Suc k)
  from step Suc.prems obtain w1 where a: "adv w = Some w1" and o: "ok w1"
    by blast
  from Suc.IH [OF o, of "out @ [smp w, smp w]"] a show ?case
    by simp
qed

text \<open>
  With a frame count of \<open>2 ^ 32\<close> or more the counter wraps around before it reaches the
  count: the loop never exits through its condition.
\<close>

lemma frame_loop_counter_exhausted:
  assumes run: "frame_loop smp adv fpb i w out = Some res"
  shows "unat fpb < 2 ^ 32"
proof -
  let ?P = "\<lambda>(smp :: wave \<Rightarrow> real) (adv :: wave \<Rightarrow> wave option) (fpb :: 64 word)
      (i :: 32 word) (w :: wave) (out :: real list) (res :: wave \<times> real list).
    unat fpb < 2 ^ 32"
  have "?P smp adv fpb i w out res"
  proof (rule frame_loop.raw_induct [where P = ?P, OF _ run])
    fix loop smp adv fpb i w out res
    assume IH: "\<And>smp adv fpb i w out res.
        loop smp adv fpb i w out = Some res \<Longrightarrow> ?P smp adv fpb i w out res"
      and eq: "(if ucast i < fpb
         then case adv w of
                None \<Rightarrow> None
              | Some w' \<Rightarrow> loop smp adv fpb (i + 1) w' (out @ [smp w, smp w])
         else Some (w, out)) = Some res"
    show "?P smp adv fpb i w out res"
    proof (cases "ucast i < fpb")
      case True
      with eq obtain w1 where "loop smp adv fpb (i + 1) w1 (out @ [smp w, smp w]) = Some res"
        by (auto split: option.splits)
      from IH [OF this] show ?thesis .
    next
      case False
      then have "unat fpb \<le> unat i"
        by (simp add: counter_less_iff)
      moreover have "unat i < 2 ^ 32"
        using unsigned_less [of i] by simp
      ultimately show ?thesis
        by linarith
    qed
  qed
  then show ?thesis .
qed

lemma frame_loop_written:
  assumes "frame_loop smp adv fpb 0 w [] = Some (w', out)"
  shows "frames_duplicated (unat fpb) out"
proof -
  have "unat fpb < 2 ^ 32"
    by (rule frame_loop_counter_exhausted [OF assms])
  then have "frames_unrolled smp adv (unat fpb) w [] = Some (w', out)"
    using assms frame_loop_unrolled [of fpb 0 "unat fpb" smp adv w "[]"] by simp
  from frames_unrolled_written [OF this] obtain ys where
    "length ys = unat fpb" "out = concat (map (\<lambda>y. [y, y]) ys)"
    by auto
  with pairs_duplicated [of ys] show ?thesis
    by simp
qed

lemma frame_loop_returns:
  assumes "unat fpb < 2 ^ 32" and "ok w"
    and "\<forall>u. ok u \<longrightarrow> (\<exists>u'. adv u = Some u' \<and> ok u')"
  shows "\<exists>w' out. frame_loop smp adv fpb 0 w [] = Some (w', out) \<and> ok w'
    \<and> frames_duplicated (unat fpb) out"
proof -
  from frames_unrolled_returns [OF assms(3,2), of smp "unat fpb" "[]"] obtain w' out where
    r: "frames_unrolled smp adv (unat fpb) w [] = Some (w', out)" and o: "ok w'"
    by blast
  have l: "frame_loop smp adv fpb 0 w [] = Some (w', out)"
    using r frame_loop_unrolled [OF assms(1), of 0 "unat fpb" smp adv w "[]"] by simp
  from frame_loop_written [OF l] l o show ?thesis
    by blast
qed

lemma callback_is_frame_loop:
  assumes run: "sineCallback_loop smp tlen osr fpb i w out = Some res"
  shows "\<forall>w' out'. res = Inr (w', out') \<longrightarrow>
    frame_loop (sample_or g smp) (advance tlen osr) fpb i w out = Some (w', out')"
proof -
  let ?P = "\<lambda>(smp :: wave \<Rightarrow> error + real) (tlen :: nat) (osr :: real) (fpb :: 64 word)
      (i :: 32 word) (w :: wave) (out :: real list) (res :: error + wave \<times> real list).
    \<forall>w' out'. res = Inr (w', out') \<longrightarrow>
      frame_loop (sample_or g smp) (advance tlen osr) fpb i w out = Some (w', out')"
  have "?P smp tlen osr fpb i w out res"
  proof (rule sineCallback_loop.raw_induct [where P = ?P, OF _ run])
    fix loop smp tlen osr fpb i w out res
    assume IH: "\<And>smp tlen osr fpb i w out res.
        loop smp tlen osr fpb i w out = Some res \<Longrightarrow> ?P smp tlen osr fpb i w out res"
      and eq: "(if ucast i < fpb
         then case smp w of
                Inl e \<Rightarrow> Some (Inl e)
              | Inr y \<Rightarrow>
                  (case advance tlen osr w of
                     None \<Rightarrow> None
                   | Some w' \<Rightarrow> loop smp tlen osr fpb (i + 1) w' (out @ [y, y]))
         else Some (Inr (w, out))) = Some res"
    show "?P smp tlen osr fpb i w out res"
    proof (intro allI impI)
      fix w' out'
      assume res: "res = Inr (w', out')"
      show "frame_loop (sample_or g smp) (advance tlen osr) fpb i w out = Some (w', out')"
      proof (cases "ucast i < fpb")
        case False
        with eq res show ?thesis
          by (subst frame_loop.simps) simp
      next
        case True
        with eq res obtain y w1 where
          s: "smp w = Inr y" and a: "advance tlen osr w = Some w1"
          and l: "loop smp tlen osr fpb (i + 1) w1 (out @ [y, y]) = Some res"
          by (auto split: sum.splits option.splits)
        have v: "sample_or g smp w = y"
          using s by (simp add: sample_or_def)
        from IH [OF l] res have
          "frame_loop (sample_or g smp) (advance tlen osr) fpb (i + 1) w1 (out @ [y, y])
             = Some (w', out')"
          by blast
        with True a v show ?thesis
          by (subst frame_loop.simps) simp
      qed
    qed
  qed
  then show ?thesis .
qed

text \<open>
  Claim C9. The loop of the callbacks, whatever the computation \<open>smp\<close> of the sample (reads
  outside the table included) and whatever the phase update \<open>adv\<close>:
  \<^item> with a frame count below \<open>2 ^ 32\<close> (what the 32-bit counter can count), from a state in
    a set \<open>ok\<close> of states on which the phase update returns and which it does not leave, the
    call returns, and it has written exactly \<open>2 * framesPerBuffer\<close> samples, the two slots
    of every frame holding the same value;
  \<^item> every call that returns has written exactly that;
  \<^item> a call of \<open>sineCallback1\<close> or \<open>sineCallback2\<close> that returns is such a call, with the
    program's sample and phase update.
\<close>

theorem frames_fully_written:
  "(unat fpb < 2 ^ 32 \<and> ok w \<and> (\<forall>u. ok u \<longrightarrow> (\<exists>u'. adv u = Some u' \<and> ok u'))
      \<longrightarrow> (\<exists>w' out. frame_loop smp adv fpb 0 w [] = Some (w', out) \<and> ok w'
             \<and> frames_duplicated (unat fpb) out))
   \<and> (frame_loop smp adv fpb 0 w [] = Some (w', out) \<longrightarrow> frames_duplicated (unat fpb) out)
   \<and> (sineCallback1 tlen osr fpb w = Some (Inr (w', out)) \<longrightarrow>
        frame_loop (sample_or g sample1) (advance tlen osr) fpb 0 w [] = Some (w', out))
   \<and> (sineCallback2 tlen osr fpb w = Some (Inr (w', out)) \<longrightarrow>
        frame_loop (sample_or g sample2) (advance tlen osr) fpb 0 w [] = Some (w', out))"
proof (intro conjI impI)
  assume "unat fpb < 2 ^ 32 \<and> ok w \<and> (\<forall>u. ok u \<longrightarrow> (\<exists>u'. adv u = Some u' \<and> ok u'))"
  then show "\<exists>w' out. frame_loop smp adv fpb 0 w [] = Some (w', out) \<and> ok w'
             \<and> frames_duplicated (unat fpb) out"
    using frame_loop_returns [of fpb ok w adv smp] by blast
next
  assume "frame_loop smp adv fpb 0 w [] = Some (w', out)"
  then show "frames_duplicated (unat fpb) out"
    by (rule frame_loop_written)
next
  assume "sineCallback1 tlen osr fpb w = Some (Inr (w', out))"
  then have "sineCallback_loop sample1 tlen osr fpb 0 w [] = Some (Inr (w', out))"
    by (simp add: sineCallback1_def)
  from callback_is_frame_loop [OF this, of g]
  show "frame_loop (sample_or g sample1) (advance tlen osr) fpb 0 w [] = Some (w', out)"
    by blast
next
  assume "sineCallback2 tlen osr fpb w = Some (Inr (w', out))"
  then have "sineCallback_loop sample2 tlen osr fpb 0 w [] = Some (Inr (w', out))"
    by (simp add: sineCallback2_def)
  from callback_is_frame_loop [OF this, of g]
  show "frame_loop (sample_or g sample2) (advance tlen osr) fpb 0 w [] = Some (w', out)"
    by blast
qed

theorem frames_fully_written_witness:
  "unat (3 :: 64 word) < 2 ^ 32
   \<and> sineCallback1 4 oneoversr 3
        \<lparr>frequency = 11025, amplitude = 1, phase = 0, wavetable = [0, 1, 0, -1, 0], n = 0\<rparr> =
      Some (Inr (\<lparr>frequency = 11025, amplitude = 1, phase = 0, wavetable = [0, 1, 0, -1, 0], n = 3\<rparr>,
                 [0, 0, 1, 1, 0, 0]))
   \<and> sineCallback2 4 oneoversr 3
        \<lparr>frequency = 11025, amplitude = 1, phase = 0, wavetable = [0, 1, 0, -1, 0], n = 0\<rparr> =
      Some (Inr (\<lparr>frequency = 11025, amplitude = 1, phase = 0, wavetable = [0, 1, 0, -1, 0], n = 3\<rparr>,
                 [0, 0, 1, 1, 0, 0]))
   \<and> frame_loop (sample_or (\<lambda>u. 0) sample1) (advance 4 oneoversr) 3 0
        \<lparr>frequency = 11025, amplitude = 1, phase = 0, wavetable = [0, 1, 0, -1, 0], n = 0\<rparr> [] =
      Some (\<lparr>frequency = 11025, amplitude = 1, phase = 0, wavetable = [0, 1, 0, -1, 0], n = 3\<rparr>,
            [0, 0, 1, 1, 0, 0])
   \<and> frame_loop (sample_or (\<lambda>u. 0) sample2) (advance 4 oneoversr) 3 0
        \<lparr>frequency = 11025, amplitude = 1, phase = 0, wavetable = [0, 1, 0, -1, 0], n = 0\<rparr> [] =
      Some (\<lparr>frequency = 11025, amplitude = 1, phase = 0, wavetable = [0, 1, 0, -1, 0], n = 3\<rparr>,
            [0, 0, 1, 1, 0, 0])
   \<and> frames_duplicated (unat (3 :: 64 word)) [0, 0, 1, 1, 0, 0]
   \<and> (\<exists>w' out.
         frame_loop (sample_or (\<lambda>u. 0) sample1) (advance 4 oneoversr) 3 0
           \<lparr>frequency = 11025, amplitude = 1, phase = 0, wavetable = [0, 1, 0, -1, 0], n = 0\<rparr> [] =
         Some (w', out)
         \<and> frames_duplicated (unat (3 :: 64 word)) out)
   \<and> frame_loop (sample_or (\<lambda>u. amplitude u * 7) sample1) (advance 4 oneoversr) 5 0
        \<lparr>frequency = 11025, amplitude = 1, phase = 0, wavetable = [0, 1, 0, -1], n = 0\<rparr> [] =
      Some (\<lparr>frequency = 11025, amplitude = 1, phase = 0, wavetable = [0, 1, 0, -1], n = 1\<rparr>,
            [0, 0, 1, 1, 0, 0, -1, -1, 7, 7])
   \<and> frames_duplicated (unat (5 :: 64 word)) [0, 0, 1, 1, 0, 0, -1, -1, 7, 7]"
proof -
  let ?w = "\<lparr>frequency = 11025, amplitude = 1, phase = 0, wavetable = [0, 1, 0, -1, 0 :: real],
    n = 0\<rparr>"
  let ?out = "[0, 0, 1, 1, 0, 0 :: real]"
  have h: "unat (3 :: 64 word) < 2 ^ 32"
    by simp
  have c: "\<forall>u. True \<longrightarrow> (\<exists>u'. advance 4 oneoversr u = Some u' \<and> True)"
    using advance_total [of 4 oneoversr] by auto
  have r1: "sineCallback1 4 oneoversr 3 ?w = Some (Inr (?w\<lparr>n := 3\<rparr>, ?out))"
    by (simp add: sineCallback1_def sineCallback_loop.simps sample1_def int_cast_def
      table_read_def advance_def wrap_loop.simps oneoversr_def SAMPLE_RATE_def)
  have r2: "sineCallback2 4 oneoversr 3 ?w = Some (Inr (?w\<lparr>n := 3\<rparr>, ?out))"
    by (simp add: sineCallback2_def sineCallback_loop.simps sample2_def int_cast_def
      table_read_def advance_def wrap_loop.simps oneoversr_def SAMPLE_RATE_def)
  note t = frames_fully_written [where fpb = 3 and ok = "\<lambda>u. True" and w = ?w
      and adv = "advance 4 oneoversr" and smp = "sample_or (\<lambda>u. 0) sample1"
      and w' = "?w\<lparr>n := 3\<rparr>" and out = ?out and tlen = 4 and osr = oneoversr
      and g = "\<lambda>u. 0"]
  have f1: "frame_loop (sample_or (\<lambda>u. 0) sample1) (advance 4 oneoversr) 3 0 ?w [] =
      Some (?w\<lparr>n := 3\<rparr>, ?out)"
    using t r1 by blast
  have f2: "frame_loop (sample_or (\<lambda>u. 0) sample2) (advance 4 oneoversr) 3 0 ?w [] =
      Some (?w\<lparr>n := 3\<rparr>, ?out)"
    using t r2 by blast
  have d: "frames_duplicated (unat (3 :: 64 word)) ?out"
    using t f1 by blast
  have e: "\<exists>w' out. frame_loop (sample_or (\<lambda>u. 0) sample1) (advance 4 oneoversr) 3 0 ?w [] =
         Some (w', out) \<and> frames_duplicated (unat (3 :: 64 word)) out"
    using t h c by blast
  let ?v = "\<lparr>frequency = 11025, amplitude = 1, phase = 0, wavetable = [0, 1, 0, -1 :: real],
    n = 0\<rparr>"
  have f3: "frame_loop (sample_or (\<lambda>u. amplitude u * 7) sample1) (advance 4 oneoversr) 5 0 ?v [] =
      Some (?v\<lparr>n := 1\<rparr>, [0, 0, 1, 1, 0, 0, -1, -1, 7, 7])"
    by (simp add: frame_loop.simps sample_or_def sample1_def int_cast_def
      table_read_def advance_def wrap_loop.simps oneoversr_def SAMPLE_RATE_def)
  have d3: "frames_duplicated (unat (5 :: 64 word)) [0, 0, 1, 1, 0, 0, -1, -1, 7, 7]"
    using frames_fully_written [where fpb = 5 and w = ?v and adv = "advance 4 oneoversr"
      and smp = "sample_or (\<lambda>u. amplitude u * 7) sample1" and w' = "?v\<lparr>n := 1\<rparr>"
      and out = "[0, 0, 1, 1, 0, 0, -1, -1, 7, 7]"] f3
    by blast
  from h r1 r2 f1 f2 d e f3 d3 show ?thesis
    by simp
qed

subsection \<open>Interpolation\<close>

lemma int_cast_nonneg: "0 \<le> x \<Longrightarrow> int_cast x = Inr k \<Longrightarrow> k = \<lfloor>x\<rfloor> \<and> 0 \<le> k"
  by (auto simp: int_cast_def Let_def split: if_splits)

lemma int_cast_neg: "x < 0 \<Longrightarrow> int_cast x = Inr k \<Longrightarrow> k = \<lceil>x\<rceil> \<and> k \<le> 0"
  by (auto simp: int_cast_def Let_def split: if_splits)

lemma table_read_Inr: "table_read t k = Inr v \<Longrightarrow> 0 \<le> k \<and> nat k < length t \<and> v = t ! nat k"
  by (auto simp: table_read_def split: if_splits)

lemma sample2_Inr:
  assumes "sample2 w = Inr y"
  obtains k where "int_cast (n w) = Inr k" "0 \<le> k" "nat k + 1 < length (wavetable w)"
    "y = amplitude w * ((1 - (n w - real_of_int k)) * wavetable w ! nat k
          + (n w - real_of_int k) * wavetable w ! (nat k + 1))"
proof -
  from assms obtain k a b where k: "int_cast (n w) = Inr k"
    and a: "table_read (wavetable w) k = Inr a"
    and b: "table_read (wavetable w) (k + 1) = Inr b"
    and y: "y = amplitude w * ((1 - (n w - real_of_int k)) * a + (n w - real_of_int k) * b)"
    by (auto simp: sample2_def Let_def split: sum.splits if_splits)
  from table_read_Inr [OF a] have ka: "0 \<le> k" "a = wavetable w ! nat k"
    by simp_all
  from table_read_Inr [OF b] have kb: "nat (k + 1) < length (wavetable w)"
    "b = wavetable w ! nat (k + 1)"
    by simp_all
  have "nat (k + 1) = nat k + 1"
    using ka(1) by simp
  with k ka kb y that show thesis
    by simp
qed

lemma convex_between:
  fixes a b f :: real
  assumes "0 \<le> f" "f \<le> 1"
  shows "min a b \<le> (1 - f) * a + f * b \<and> (1 - f) * a + f * b \<le> max a b"
proof -
  have e: "(1 - f) * a + f * b = a + f * (b - a)" "(1 - f) * a + f * b = b + (1 - f) * (a - b)"
    by (simp_all add: algebra_simps)
  show ?thesis
  proof (cases "a \<le> b")
    case True
    then have "0 \<le> f * (b - a)" "(1 - f) * (a - b) \<le> 0"
      using assms by (simp_all add: mult_nonneg_nonpos)
    then have "a \<le> (1 - f) * a + f * b" "(1 - f) * a + f * b \<le> b"
      using e by linarith+
    with True show ?thesis by (simp add: min_def max_def)
  next
    case False
    then have "f * (b - a) \<le> 0" "0 \<le> (1 - f) * (a - b)"
      using assms by (simp_all add: mult_nonneg_nonpos)
    then have "(1 - f) * a + f * b \<le> a" "b \<le> (1 - f) * a + f * b"
      using e by linarith+
    with False show ?thesis by (simp add: min_def max_def)
  qed
qed

text \<open>
  Claim C6. For a phase \<open>n \<ge> 0\<close> (where the conversion \<^verbatim>\<open>(int)n\<close> is the floor) and an
  amplitude other than 0, a sample \<open>y\<close> computed by the interpolating program satisfies
  \<open>min (table[i], table[i+1]) \<le> y / amplitude \<le> max (table[i], table[i+1])\<close> for
  \<open>i = floor n\<close>.
\<close>

theorem interpolation_no_overshoot:
  assumes "0 \<le> n w" and "amplitude w \<noteq> 0" and "sample2 w = Inr y"
  shows "min (wavetable w ! nat \<lfloor>n w\<rfloor>) (wavetable w ! (nat \<lfloor>n w\<rfloor> + 1)) \<le> y / amplitude w
       \<and> y / amplitude w \<le> max (wavetable w ! nat \<lfloor>n w\<rfloor>) (wavetable w ! (nat \<lfloor>n w\<rfloor> + 1))"
proof -
  from assms(3) obtain k where k: "int_cast (n w) = Inr k"
    and y: "y = amplitude w * ((1 - (n w - real_of_int k)) * wavetable w ! nat k
          + (n w - real_of_int k) * wavetable w ! (nat k + 1))"
    by (rule sample2_Inr)
  from int_cast_nonneg [OF assms(1) k] have kf: "k = \<lfloor>n w\<rfloor>"
    by simp
  define f where "f = n w - real_of_int \<lfloor>n w\<rfloor>"
  have f: "0 \<le> f" "f \<le> 1"
    unfolding f_def by linarith+
  have "y / amplitude w =
      (1 - f) * wavetable w ! nat \<lfloor>n w\<rfloor> + f * wavetable w ! (nat \<lfloor>n w\<rfloor> + 1)"
    using y assms(2) by (simp add: kf f_def)
  with convex_between [OF f] show ?thesis
    by simp
qed

theorem interpolation_no_overshoot_witness:
  "0 \<le> n \<lparr>frequency = 440, amplitude = 1 / 2, phase = 0, wavetable = [0, 1, 0, -1, 0], n = 1 / 2\<rparr>
   \<and> amplitude \<lparr>frequency = 440, amplitude = 1 / 2, phase = 0, wavetable = [0, 1, 0, -1, 0], n = 1 / 2\<rparr>
       \<noteq> 0
   \<and> sample2 \<lparr>frequency = 440, amplitude = 1 / 2, phase = 0, wavetable = [0, 1, 0, -1, 0], n = 1 / 2\<rparr>
       = Inr (1 / 4)
   \<and> min ([0, 1, 0, -1, 0] ! nat \<lfloor>1 / 2 :: real\<rfloor>) ([0, 1, 0, -1, 0] ! (nat \<lfloor>1 / 2 :: real\<rfloor> + 1))
       \<le> (1 / 4) / (1 / 2 :: real)
   \<and> (1 / 4) / (1 / 2 :: real)
       \<le> max ([0, 1, 0, -1, 0] ! nat \<lfloor>1 / 2 :: real\<rfloor>) ([0, 1, 0, -1, 0] ! (nat \<lfloor>1 / 2 :: real\<rfloor> + 1))"
proof -
  let ?w = "\<lparr>frequency = 440, amplitude = 1 / 2, phase = 0, wavetable = [0, 1, 0, -1, 0 :: real],
    n = 1 / 2\<rparr>"
  have s: "sample2 ?w = Inr (1 / 4)"
    by (simp add: sample2_def int_cast_def table_read_def)
  have "0 \<le> n ?w" "amplitude ?w \<noteq> 0"
    by simp_all
  from interpolation_no_overshoot [OF this s] s show ?thesis
    by simp
qed

subsection \<open>The range of the phase, and the samples against the amplitude\<close>

text \<open>
  What the wrap loop does guarantee: from a phase of at least 0 and with an increment of at
  least 0, the phase after a frame is between 0 and the table length, both included.
\<close>

lemma advance_range:
  assumes "0 < tlen" and "0 \<le> n w" and "0 \<le> frequency w * real tlen * osr"
  shows "\<exists>x. advance tlen osr w = Some (w\<lparr>n := x\<rparr>) \<and> 0 \<le> x \<and> x \<le> real tlen"
proof -
  let ?x = "n w + frequency w * real tlen * osr"
  have t: "0 < real tlen" using assms(1) by simp
  from wrap_loop_total [OF t, of ?x] obtain y where
    y: "wrap_loop (real tlen) ?x = Some y" "y \<le> real tlen" "real tlen < ?x \<longrightarrow> 0 < y"
      "?x \<le> real tlen \<longrightarrow> y = ?x"
    by blast
  have "0 \<le> ?x" using assms(2,3) by simp
  then have "0 \<le> y" using y(3,4) by (cases "real tlen < ?x") auto
  with y(1,2) show ?thesis by (intro exI [of _ y]) (simp add: advance_def)
qed

lemma loop_samples_aux:
  assumes run: "sineCallback_loop smp tlen osr fpb i w out = Some res"
  shows "(\<forall>w y. wavetable w = t \<longrightarrow> amplitude w = a \<longrightarrow> smp w = Inr y \<longrightarrow> Q y) \<longrightarrow>
   wavetable w = t \<longrightarrow> amplitude w = a \<longrightarrow> (\<forall>y \<in> set out. Q y) \<longrightarrow>
   (\<forall>w' out'. res = Inr (w', out') \<longrightarrow> (\<forall>y \<in> set out'. Q y))"
proof -
  let ?P = "\<lambda>smp (tlen :: nat) (osr :: real) (fpb :: 64 word) (i :: 32 word) w out res.
    (\<forall>w y. wavetable w = t \<longrightarrow> amplitude w = a \<longrightarrow> smp w = Inr y \<longrightarrow> Q y) \<longrightarrow>
    wavetable w = t \<longrightarrow> amplitude w = a \<longrightarrow> (\<forall>y \<in> set out. Q y) \<longrightarrow>
    (\<forall>w' out'. res = Inr (w', out') \<longrightarrow> (\<forall>y \<in> set out'. Q y))"
  have "?P smp tlen osr fpb i w out res"
  proof (rule sineCallback_loop.raw_induct [where P = ?P, OF _ run])
    fix loop smp tlen osr fpb i w out res
    assume IH: "\<And>smp tlen osr fpb i w out res.
        loop smp tlen osr fpb i w out = Some res \<Longrightarrow> ?P smp tlen osr fpb i w out res"
      and eq: "(if ucast i < fpb
         then case smp w of
                Inl e \<Rightarrow> Some (Inl e)
              | Inr y \<Rightarrow>
                  (case advance tlen osr w of
                     None \<Rightarrow> None
                   | Some w' \<Rightarrow> loop smp tlen osr fpb (i + 1) w' (out @ [y, y]))
         else Some (Inr (w, out))) = Some res"
    show "?P smp tlen osr fpb i w out res"
    proof (intro impI allI)
      fix w' out'
      assume step: "\<forall>w y. wavetable w = t \<longrightarrow> amplitude w = a \<longrightarrow> smp w = Inr y \<longrightarrow> Q y"
        and wt: "wavetable w = t" and wa: "amplitude w = a"
        and qo: "\<forall>y \<in> set out. Q y" and res: "res = Inr (w', out')"
      show "\<forall>y \<in> set out'. Q y"
      proof (cases "ucast i < fpb")
        case False
        with eq res qo show ?thesis by simp
      next
        case True
        with eq res obtain y w1 where
          s: "smp w = Inr y" and a: "advance tlen osr w = Some w1"
          and l: "loop smp tlen osr fpb (i + 1) w1 (out @ [y, y]) = Some res"
          by (auto split: sum.splits option.splits)
        have q: "Q y"
          using step wt wa s by blast
        have f: "wavetable w1 = t" "amplitude w1 = a"
          using advance_fields [OF a] wt wa by simp_all
        have "\<forall>y \<in> set (out @ [y, y]). Q y"
          using q qo by simp
        with IH [OF l] step f res show ?thesis by blast
      qed
    qed
  qed
  then show ?thesis .
qed

lemma loop_samples:
  assumes "sineCallback_loop smp tlen osr fpb i w out = Some (Inr (w', out'))"
    and "\<And>w y. wavetable w = t \<Longrightarrow> amplitude w = a \<Longrightarrow> smp w = Inr y \<Longrightarrow> Q y"
    and "wavetable w = t" and "amplitude w = a" and "\<forall>y \<in> set out. Q y"
  shows "\<forall>y \<in> set out'. Q y"
  using loop_samples_aux [OF assms(1), of t a Q] assms(2-5) by blast

lemma sample1_bound:
  assumes "0 \<le> amplitude w" and "\<forall>v \<in> set (wavetable w). \<bar>v\<bar> \<le> 1" and "sample1 w = Inr y"
  shows "\<bar>y\<bar> \<le> amplitude w"
proof -
  from assms(3) obtain k v where r: "table_read (wavetable w) k = Inr v"
    and y: "y = amplitude w * v"
    by (auto simp: sample1_def split: sum.splits)
  from table_read_Inr [OF r] have "v \<in> set (wavetable w)"
    by simp
  with assms(2) have "\<bar>v\<bar> \<le> 1"
    by blast
  then have "amplitude w * \<bar>v\<bar> \<le> amplitude w * 1"
    using assms(1) by (rule mult_left_mono)
  then show ?thesis
    using assms(1) y by (simp add: abs_mult)
qed

lemma sample2_bound:
  assumes amp: "0 \<le> amplitude w" and bnd: "\<forall>v \<in> set (wavetable w). \<bar>v\<bar> \<le> 1"
    and zero: "wavetable w ! 0 = 0" and smp: "sample2 w = Inr y"
  shows "\<bar>y\<bar> \<le> amplitude w"
proof -
  from smp obtain k where k: "int_cast (n w) = Inr k" and k0: "0 \<le> k"
    and kl: "nat k + 1 < length (wavetable w)"
    and y: "y = amplitude w * ((1 - (n w - real_of_int k)) * wavetable w ! nat k
          + (n w - real_of_int k) * wavetable w ! (nat k + 1))"
    by (rule sample2_Inr)
  define f where "f = n w - real_of_int k"
  define c where "c = (1 - f) * wavetable w ! nat k + f * wavetable w ! (nat k + 1)"
  have a: "\<bar>wavetable w ! nat k\<bar> \<le> 1" and b: "\<bar>wavetable w ! (nat k + 1)\<bar> \<le> 1"
    using bnd kl by simp_all
  have "\<bar>c\<bar> \<le> 1"
  proof (cases "0 \<le> n w")
    case True
    from int_cast_nonneg [OF True k] have "k = \<lfloor>n w\<rfloor>"
      by simp
    then have "0 \<le> f" "f \<le> 1"
      unfolding f_def by linarith+
    from convex_between [OF this, of "wavetable w ! nat k" "wavetable w ! (nat k + 1)"]
    show ?thesis
      using a b unfolding c_def by (simp add: min_def max_def abs_le_iff split: if_splits)
  next
    case False
    then have neg: "n w < 0" by simp
    from int_cast_neg [OF neg k] k0 have kz: "k = 0" and "\<lceil>n w\<rceil> = 0"
      by simp_all
    then have "- 1 < n w"
      by linarith
    with neg have "\<bar>f\<bar> \<le> 1"
      unfolding f_def kz by simp
    moreover have "c = f * wavetable w ! 1"
      unfolding c_def using kz zero by simp
    moreover have "\<bar>wavetable w ! 1\<bar> \<le> 1"
      using b kz by simp
    ultimately show ?thesis
      by (simp add: abs_mult mult_le_one)
  qed
  then have "amplitude w * \<bar>c\<bar> \<le> amplitude w * 1"
    using amp by (rule mult_left_mono)
  moreover have "y = amplitude w * c"
    using y by (simp add: c_def f_def)
  ultimately show ?thesis
    using amp by (simp add: abs_mult)
qed

lemma filltable1_entries:
  assumes "filltable1 mem len = Inr t" and "length mem = unat len"
  shows "\<forall>v \<in> set t. \<bar>v\<bar> \<le> 1"
proof -
  from filltable1_ok [of len mem] assms have l: "length t = length mem"
    and v: "\<forall>q < length mem. t ! q =
          (if q < unat len then sin (real q * (TWOPI / real (unat len))) else mem ! q)"
    by auto
  show ?thesis
  proof
    fix x assume "x \<in> set t"
    then obtain q where "q < length t" "x = t ! q"
      by (auto simp: in_set_conv_nth)
    with l v assms(2) have "x = sin (real q * (TWOPI / real (unat len)))"
      by simp
    then show "\<bar>x\<bar> \<le> 1"
      by simp
  qed
qed

lemma filltable2_entries:
  assumes "filltable2 mem len = Inr t" and "length mem = unat len + 1"
  shows "(\<forall>v \<in> set t. \<bar>v\<bar> \<le> 1) \<and> t ! 0 = 0"
proof -
  have "unat len < length mem"
    using assms(2) by simp
  from filltable2_ok [OF this] assms(1) have l: "length t = length mem"
    and v: "\<forall>q < length mem. t ! q =
          (if q < unat len then sin (real q * (8 * arctan 1 / real (unat len)))
           else if q = unat len then 0 else mem ! q)"
    by auto
  have "\<forall>v \<in> set t. \<bar>v\<bar> \<le> 1"
  proof
    fix x assume "x \<in> set t"
    then obtain q where q: "q < length t" "x = t ! q"
      by (auto simp: in_set_conv_nth)
    then have "q < unat len \<or> q = unat len"
      using l assms(2) by linarith
    with q l v show "\<bar>x\<bar> \<le> 1"
      by auto
  qed
  moreover have "t ! 0 = 0"
  proof -
    have "0 < length mem" using assms(2) by simp
    with v have "t ! 0 = (if 0 < unat len then sin (real 0 * (8 * arctan 1 / real (unat len)))
           else if 0 = unat len then 0 else mem ! 0)"
      by blast
    then show ?thesis by simp
  qed
  ultimately show ?thesis ..
qed

text \<open>
  What holds of the samples of a call that returns, that is, of a call all of whose reads
  are inside the table: with an amplitude of at least 0 and the table built by the program's
  own \<open>filltable\<close> on the array the program allocates (\<open>len\<close> slots for the truncating
  program, \<open>len + 1\<close> for the interpolating one), every sample \<open>y\<close> written satisfies
  \<open>\<bar>y\<bar> \<le> amplitude\<close>.
\<close>

lemma in_table_samples_within_amplitude:
  assumes "0 \<le> amplitude w"
    and "(filltable1 mem len = Inr (wavetable w) \<and> length mem = unat len
            \<and> sineCallback1 tlen osr fpb w = Some (Inr (w', out)))
       \<or> (filltable2 mem len = Inr (wavetable w) \<and> length mem = unat len + 1
            \<and> sineCallback2 tlen osr fpb w = Some (Inr (w', out)))"
    and "y \<in> set out"
  shows "\<bar>y\<bar> \<le> amplitude w"
proof -
  from assms(2) have "\<forall>y \<in> set out. \<bar>y\<bar> \<le> amplitude w"
  proof
    assume h: "filltable1 mem len = Inr (wavetable w) \<and> length mem = unat len
            \<and> sineCallback1 tlen osr fpb w = Some (Inr (w', out))"
    then have b: "\<forall>v \<in> set (wavetable w). \<bar>v\<bar> \<le> 1"
      using filltable1_entries by blast
    have "sineCallback_loop sample1 tlen osr fpb 0 w [] = Some (Inr (w', out))"
      using h by (simp add: sineCallback1_def)
    moreover have "\<And>u y. wavetable u = wavetable w \<Longrightarrow> amplitude u = amplitude w \<Longrightarrow>
        sample1 u = Inr y \<Longrightarrow> \<bar>y\<bar> \<le> amplitude w"
      using sample1_bound assms(1) b by metis
    ultimately show ?thesis
      by (rule loop_samples [where t = "wavetable w" and a = "amplitude w"]) simp_all
  next
    assume h: "filltable2 mem len = Inr (wavetable w) \<and> length mem = unat len + 1
            \<and> sineCallback2 tlen osr fpb w = Some (Inr (w', out))"
    then have b: "\<forall>v \<in> set (wavetable w). \<bar>v\<bar> \<le> 1" and z: "wavetable w ! 0 = 0"
      using filltable2_entries by blast+
    have "sineCallback_loop sample2 tlen osr fpb 0 w [] = Some (Inr (w', out))"
      using h by (simp add: sineCallback2_def)
    moreover have "\<And>u y. wavetable u = wavetable w \<Longrightarrow> amplitude u = amplitude w \<Longrightarrow>
        sample2 u = Inr y \<Longrightarrow> \<bar>y\<bar> \<le> amplitude w"
      using sample2_bound assms(1) b z by metis
    ultimately show ?thesis
      by (rule loop_samples [where t = "wavetable w" and a = "amplitude w"]) simp_all
  qed
  with assms(3) show ?thesis
    by blast
qed

lemma in_table_samples_within_amplitude_example:
  "0 \<le> amplitude
       \<lparr>frequency = 11025, amplitude = 1 / 2, phase = 0, wavetable = [0, sin (TWOPI / 2)], n = 0\<rparr>
   \<and> filltable1 [9, 9] 2 = Inr [0, sin (TWOPI / 2)]
   \<and> length [9, 9 :: real] = unat (2 :: 64 word)
   \<and> sineCallback1 2 oneoversr 3
        \<lparr>frequency = 11025, amplitude = 1 / 2, phase = 0, wavetable = [0, sin (TWOPI / 2)], n = 0\<rparr> =
      Some (Inr (\<lparr>frequency = 11025, amplitude = 1 / 2, phase = 0, wavetable = [0, sin (TWOPI / 2)],
                    n = 3 / 2\<rparr>,
                 [0, 0, 0, 0, sin (TWOPI / 2) / 2, sin (TWOPI / 2) / 2]))
   \<and> \<bar>sin (TWOPI / 2) / 2\<bar> \<le> (1 / 2 :: real)
   \<and> filltable2 [9, 9, 9] 2 = Inr [0, sin (4 * arctan 1), 0]
   \<and> length [9, 9, 9 :: real] = unat (2 :: 64 word) + 1
   \<and> sineCallback2 2 oneoversr 3
        \<lparr>frequency = 11025, amplitude = 1 / 2, phase = 0,
         wavetable = [0, sin (4 * arctan 1), 0], n = 0\<rparr> =
      Some (Inr (\<lparr>frequency = 11025, amplitude = 1 / 2, phase = 0,
                  wavetable = [0, sin (4 * arctan 1), 0], n = 3 / 2\<rparr>,
                 [0, 0, sin (4 * arctan 1) / 4, sin (4 * arctan 1) / 4,
                  sin (4 * arctan 1) / 2, sin (4 * arctan 1) / 2]))
   \<and> \<bar>sin (4 * arctan 1) / 4\<bar> \<le> (1 / 2 :: real)"
proof -
  let ?wa = "\<lparr>frequency = 11025, amplitude = 1 / 2, phase = 0, wavetable = [0, sin (TWOPI / 2)],
    n = 0\<rparr>"
  let ?wb = "\<lparr>frequency = 11025, amplitude = 1 / 2, phase = 0,
    wavetable = [0, sin (4 * arctan 1), 0], n = 0\<rparr>"
  have fa: "filltable1 [9, 9] 2 = Inr [0, sin (TWOPI / 2)]"
    by (simp add: filltable1_def filltable_loop.simps)
  have fb: "filltable2 [9, 9, 9] 2 = Inr [0, sin (4 * arctan 1), 0]"
    by (simp add: filltable2_def filltable_loop.simps)
  have ca: "sineCallback1 2 oneoversr 3 ?wa =
      Some (Inr (?wa\<lparr>n := 3 / 2\<rparr>, [0, 0, 0, 0, sin (TWOPI / 2) / 2, sin (TWOPI / 2) / 2]))"
    by (simp add: sineCallback1_def sineCallback_loop.simps sample1_def int_cast_def
        table_read_def advance_def wrap_loop.simps oneoversr_def SAMPLE_RATE_def)
  have cb: "sineCallback2 2 oneoversr 3 ?wb =
      Some (Inr (?wb\<lparr>n := 3 / 2\<rparr>,
                 [0, 0, sin (4 * arctan 1) / 4, sin (4 * arctan 1) / 4,
                  sin (4 * arctan 1) / 2, sin (4 * arctan 1) / 2]))"
    by (simp add: sineCallback2_def sineCallback_loop.simps sample2_def int_cast_def
        table_read_def advance_def wrap_loop.simps oneoversr_def SAMPLE_RATE_def)
  have a: "\<bar>sin (TWOPI / 2) / 2\<bar> \<le> amplitude ?wa"
    by (rule in_table_samples_within_amplitude [where w = ?wa and mem = "[9, 9]" and len = 2
          and tlen = 2 and osr = oneoversr and fpb = 3 and w' = "?wa\<lparr>n := 3 / 2\<rparr>"
          and out = "[0, 0, 0, 0, sin (TWOPI / 2) / 2, sin (TWOPI / 2) / 2]"])
      (simp_all add: fa ca)
  have b: "\<bar>sin (4 * arctan 1) / 4\<bar> \<le> amplitude ?wb"
    by (rule in_table_samples_within_amplitude [where w = ?wb and mem = "[9, 9, 9]" and len = 2
          and tlen = 2 and osr = oneoversr and fpb = 3 and w' = "?wb\<lparr>n := 3 / 2\<rparr>"
          and out = "[0, 0, sin (4 * arctan 1) / 4, sin (4 * arctan 1) / 4,
                  sin (4 * arctan 1) / 2, sin (4 * arctan 1) / 2]"])
      (simp_all add: fb cb)
  from fa fb ca cb a b show ?thesis
    by simp
qed

text \<open>
  Claim C7 says that every sample written, at every reachable phase, is within the
  amplitude. The truncating program reaches the phase 1024 (claim C1), and the sample it
  writes there is the amplitude times slot 1024, which is not an entry of the 1024-slot table
  that \<open>filltable1\<close> has built. With the program's constants and a target frequency of 44100
  this is the second frame: on the table alone the read is outside the array, and with a
  cell of value \<open>v\<close> behind the table (\<open>t @ [v]\<close>) the sample written is \<open>MAX_AMP * v\<close>, which
  nothing keeps within \<open>MAX_AMP\<close>.
\<close>

theorem sample_behind_the_table:
  "case filltable1 (replicate 1024 0) 1024 of
     Inl e \<Rightarrow> False
   | Inr t \<Rightarrow>
       sineCallback1 TABLE_LENGTH oneoversr 2 (init_wave 44100 t) = Some (Inl IndexOutOfBounds)
       \<and> sineCallback1 TABLE_LENGTH oneoversr 2 (init_wave 44100 (t @ [v])) =
           Some (Inr ((init_wave 44100 (t @ [v]))\<lparr>n := 1024\<rparr>, [0, 0, MAX_AMP * v, MAX_AMP * v]))"
proof -
  have "unat (1024 :: 64 word) \<le> length (replicate 1024 (0 :: real))"
    by simp
  from filltable1_ok [OF this] obtain t where
    r: "filltable1 (replicate 1024 0) 1024 = Inr t"
    and l: "length t = 1024"
    and v: "\<forall>q < length (replicate 1024 (0 :: real)). t ! q =
          (if q < unat (1024 :: 64 word)
           then sin (real q * (TWOPI / real (unat (1024 :: 64 word))))
           else replicate 1024 0 ! q)"
    by auto
  have z: "t ! 0 = 0"
    using v by simp
  have a: "sineCallback1 TABLE_LENGTH oneoversr 2 (init_wave 44100 t) = Some (Inl IndexOutOfBounds)"
    using l by (rule second_frame_reads_outside)
  have b: "sineCallback1 TABLE_LENGTH oneoversr 2 (init_wave 44100 (t @ [v])) =
           Some (Inr ((init_wave 44100 (t @ [v]))\<lparr>n := 1024\<rparr>, [0, 0, MAX_AMP * v, MAX_AMP * v]))"
    using l z
    by (simp add: sineCallback1_def sineCallback_loop.simps init_wave_def sample1_def int_cast_def
      table_read_def advance_def wrap_loop.simps TABLE_LENGTH_def oneoversr_def SAMPLE_RATE_def
      nth_append)
  from r a b show ?thesis
    by simp
qed

end
